theory Spec2Isabelle
  imports Complex_Main "HOL-Library.Char_ord" "HOL-Library.List_Lexorder"
    "HOL-Library.Product_Lexorder" "HOL-Library.Multiset"
begin

section \<open>Python values used by Home.py\<close>

text \<open>
  A Python \<open>dict\<close> keeps its keys in insertion order and holds each key once.  It is
  modelled as an association list; \<open>d[k] = v\<close> overwrites the value of a key that is
  present (the key keeps its place) and appends a new key at the end.
\<close>

type_synonym ('k, 'v) pydict = "('k \<times> 'v) list"

fun dict_set :: "('k, 'v) pydict \<Rightarrow> 'k \<Rightarrow> 'v \<Rightarrow> ('k, 'v) pydict" where
  "dict_set [] k v = [(k, v)]"
| "dict_set ((k', v') # d) k v =
     (if k' = k then (k', v) # d else (k', v') # dict_set d k v)"

text \<open>\<open>dict(pairs)\<close> and a dict comprehension insert the pairs from left to right.\<close>

definition dict_of :: "('k \<times> 'v) list \<Rightarrow> ('k, 'v) pydict" where
  "dict_of kvs = foldl (\<lambda>d (k, v). dict_set d k v) [] kvs"

text \<open>The well-formedness of a dict: no key twice.\<close>

definition is_dict :: "('k, 'v) pydict \<Rightarrow> bool" where
  "is_dict d \<longleftrightarrow> distinct (map fst d)"

text \<open>
  A Python \<open>str\<close> is a sequence of Unicode code points, and \<open>len\<close>, offsets and slices
  count code points.  A text is therefore a list of code points; \<open>pystr_of\<close> reads an
  ASCII literal as such a list.  Role names and classifier labels, which the program
  only compares with each other and with ASCII literals, are kept as \<open>string\<close>.
\<close>

type_synonym pystr = "nat list"

definition pystr_of :: "string \<Rightarrow> pystr" where
  "pystr_of cs = map of_char cs"

text \<open>
  A Python \<open>float\<close> is an IEEE binary64 number.  It is modelled by the real number that
  is its exact value; a decimal literal and the result of an arithmetic operation are
  the exact result rounded to the nearest binary64 number, a tie going to the even
  significand (\<open>py_float\<close>).  Comparisons of floats are exact.  Infinities, NaN and the
  sign of zero are not modelled: the scores are probabilities.
\<close>

text \<open>\<open>int.bit_length()\<close>: the number of binary digits of a natural number.\<close>

fun bit_length :: "nat \<Rightarrow> nat" where
  "bit_length n = (if n = 0 then 0 else Suc (bit_length (n div 2)))"

declare bit_length.simps [simp del]

definition pow2 :: "int \<Rightarrow> real" where
  "pow2 k = (if 0 \<le> k then 2 ^ nat k else 1 / 2 ^ nat (- k))"

text \<open>The exponent \<open>e\<close> of a positive real \<open>y\<close>: \<open>2 ^ e \<le> y < 2 ^ (e + 1)\<close>.\<close>

definition binary_exponent :: "real \<Rightarrow> int" where
  "binary_exponent y =
     (if 1 \<le> y then int (bit_length (nat \<lfloor>y\<rfloor>)) - 1
      else - int (bit_length (nat (\<lceil>1 / y\<rceil> - 1))))"

definition round_half_even :: "real \<Rightarrow> int" where
  "round_half_even x =
     (let f = \<lfloor>x\<rfloor>; d = x - of_int f
      in if d < 1 / 2 then f
         else if 1 / 2 < d then f + 1
         else if even f then f else f + 1)"

text \<open>
  The nearest binary64 number: 53 significant bits, so the unit in the last place of a
  number with exponent \<open>e\<close> is \<open>2 ^ (e - 52)\<close>; below the smallest normal exponent
  \<open>-1022\<close> the unit stays \<open>2 ^ -1074\<close>.
\<close>

definition py_float :: "real \<Rightarrow> real" where
  "py_float x =
     (if x = 0 then 0
      else let e = max (binary_exponent \<bar>x\<bar>) (- 1022); u = pow2 (e - 52)
           in of_int (round_half_even (x / u)) * u)"

text \<open>The subtraction \<open>a - b\<close> of two floats.\<close>

definition float_sub :: "real \<Rightarrow> real \<Rightarrow> real" where
  "float_sub a b = py_float (a - b)"

text \<open>
  \<open>round(x, n)\<close> of a float, for \<open>n \<ge> 0\<close>: the exact value of \<open>x\<close> is rounded to \<open>n\<close>
  decimals, a tie going to the even neighbour, and the decimal result is read back as
  a float.
\<close>

definition py_round :: "real \<Rightarrow> nat \<Rightarrow> real" where
  "py_round x n = py_float (of_int (round_half_even (x * 10 ^ n)) / 10 ^ n)"

text \<open>
  \<open>max\<close> of a sequence known to be non-empty, given as its head and its tail: the
  first element is the candidate, and a later element replaces it when it is larger.
\<close>

definition py_max1 :: "'a::linorder \<Rightarrow> 'a list \<Rightarrow> 'a" where
  "py_max1 x xs = fold (\<lambda>y m. if m < y then y else m) xs x"

text \<open>\<open>max(xs)\<close> of any sequence; on an empty one Python raises ValueError (\<open>None\<close>).\<close>

fun py_max :: "'a::linorder list \<Rightarrow> 'a option" where
  "py_max [] = None"
| "py_max (x # xs) = Some (py_max1 x xs)"

section \<open>Stage 2: fine-grained role classification\<close>

text \<open>
  A row of the stage-2 input frame, with the three columns that
  \<open>pipeline_with_confidence\<close> reads (\<open>context_text\<close> is the column \<open>context\<close>).
\<close>

record example =
  entity_mention :: pystr
  p_main_role :: pystr
  context_text :: pystr

text \<open>One \<open>{'label': ..., 'score': ...}\<close> entry of the classifier's answer.\<close>

record score_entry =
  label :: string
  score :: real

text \<open>
  The text-classification pipeline is an external collaborator: a call either raises
  (\<open>Inl\<close>) or returns a list holding, for each input text, the list of its score entries.
\<close>

datatype exn = Exception string

type_synonym clf_pipeline = "pystr \<Rightarrow> exn + score_entry list list"

text \<open>The f-string of lines 123-127; code point 10 is the newline.\<close>

definition input_text :: "'a example_scheme \<Rightarrow> pystr" where
  "input_text ex =
     pystr_of ''Entity: '' @ entity_mention ex @ [10] @
     pystr_of ''Main Role: '' @ p_main_role ex @ [10] @
     pystr_of ''Context: '' @ context_text ex"

text \<open>
  \<open>sorted(items, key=lambda x: x[1], reverse=True)\<close>: a stable sort, descending in the
  value; entries of equal value keep their order.
\<close>

definition sorted_by_value_desc :: "('k \<times> real) list \<Rightarrow> ('k \<times> real) list" where
  "sorted_by_value_desc kvs = sort_key (\<lambda>x. - snd x) kvs"

text \<open>
  \<open>pipeline_with_confidence\<close>, lines 122-137.  The call of the pipeline and the index
  \<open>[0]\<close> are both inside the \<open>try\<close>: an exception of the pipeline and the IndexError of
  an empty answer both give the empty dict.
\<close>

definition pipeline_with_confidence ::
  "clf_pipeline \<Rightarrow> real \<Rightarrow> 'a example_scheme \<Rightarrow> (string, real) pydict" where
  "pipeline_with_confidence clf threshold ex =
     (case clf (input_text ex) of
        Inl e \<Rightarrow> []
      | Inr [] \<Rightarrow> []
      | Inr (scores # _) \<Rightarrow>
          (let filtered_scores =
                 dict_of (map (\<lambda>s. (label s, py_round (score s) 4))
                            (filter (\<lambda>s. score s > threshold) scores))
           in dict_of (sorted_by_value_desc filtered_scores)))"

text \<open>A pipeline that answers every input with the same score entries.\<close>

definition const_pipeline :: "score_entry list \<Rightarrow> clf_pipeline" where
  "const_pipeline scores = (\<lambda>_. Inr [scores])"

text \<open>
  \<open>select_roles_within_margin\<close>, lines 139-143.  The guard \<open>if not scores\<close> keeps
  \<open>max\<close> away from the empty sequence, so its ValueError branch is never taken.
  \<open>top_score - margin\<close> is a subtraction of floats.
\<close>

definition select_roles_within_margin :: "(string, real) pydict \<Rightarrow> real \<Rightarrow> string list" where
  "select_roles_within_margin scores margin =
     (if scores = [] then []
      else case py_max (map snd scores) of
             None \<Rightarrow> []
           | Some top_score \<Rightarrow>
               [role. (role, sc) \<leftarrow> scores, sc \<ge> float_sub top_score margin])"

text \<open>
  \<open>filter_scores_by_margin\<close>, lines 145-148; its two arguments are the columns
  \<open>predicted_fine_with_scores\<close> and \<open>predicted_fine_margin\<close> of the row.  The test
  \<open>role in scores\<close> guards the lookup \<open>scores[role]\<close>.
\<close>

definition filter_scores_by_margin ::
  "(string, real) pydict \<Rightarrow> string list \<Rightarrow> (string, real) pydict" where
  "filter_scores_by_margin scores margin_roles =
     dict_of (concat (map (\<lambda>role. case map_of scores role of
                                     Some v \<Rightarrow> [(role, v)]
                                   | None \<Rightarrow> [])
                          margin_roles))"

text \<open>A row of the frame that \<open>run_stage2_with_cached_model\<close> returns.\<close>

record stage2_row = example +
  predicted_fine_with_scores :: "(string, real) pydict"
  predicted_fine_margin :: "string list"
  p_fine_roles_w_conf :: "(string, real) pydict"
  article_id :: string

text \<open>
  \<open>run_stage2_with_cached_model\<close>, lines 119-156.  The frame is the list of its rows;
  \<open>df.apply(f, axis=1)\<close> applies \<open>f\<close> to every row and \<open>column.apply(f)\<close> to every
  value of the column.  The three new columns are computed one after the other, each
  from the columns before it, and \<open>article_id\<close> is set on every row.  On a frame
  without rows \<open>df.apply(f, axis=1)\<close> returns an empty frame, not a column, and the
  assignment of line 151 raises ValueError.
\<close>

definition run_stage2_with_cached_model ::
  "string \<Rightarrow> clf_pipeline \<Rightarrow> example list \<Rightarrow> real \<Rightarrow> real \<Rightarrow> exn + stage2_row list" where
  "run_stage2_with_cached_model aid clf df threshold margin =
     (if df = [] then Inl (Exception ''ValueError'')
      else
        let col_scores = map (pipeline_with_confidence clf threshold) df;
            col_margin = map (\<lambda>scores. select_roles_within_margin scores margin) col_scores;
            col_conf = map (\<lambda>(scores, margin_roles). filter_scores_by_margin scores margin_roles)
                           (zip col_scores col_margin)
        in Inr (map (\<lambda>(ex, scores, margin_roles, conf).
                        \<lparr>entity_mention = entity_mention ex, p_main_role = p_main_role ex,
                         context_text = context_text ex,
                         predicted_fine_with_scores = scores,
                         predicted_fine_margin = margin_roles,
                         p_fine_roles_w_conf = conf,
                         article_id = aid\<rparr>)
                    (zip df (zip col_scores (zip col_margin col_conf)))))"

text \<open>The defaults of the keyword arguments \<open>threshold\<close> and \<open>margin\<close>.\<close>

definition default_threshold :: real where
  "default_threshold = py_float (1 / 100)"

definition default_margin :: real where
  "default_margin = py_float (5 / 100)"

text \<open>Sample inputs on which the functions are evaluated below.\<close>

definition sample_example :: example where
  "sample_example = \<lparr>entity_mention = pystr_of ''Alice'',
                      p_main_role = pystr_of ''Protagonist'',
                      context_text = pystr_of ''Alice met Bob.''\<rparr>"

definition sample_scores :: "score_entry list" where
  "sample_scores =
     [\<lparr>label = ''Guardian'', score = py_float (1 / 2)\<rparr>,
      \<lparr>label = ''Rebel'', score = py_float (12345 / 100000)\<rparr>,
      \<lparr>label = ''Victim'', score = py_float (4 / 10)\<rparr>,
      \<lparr>label = ''Martyr'', score = py_float (95 / 100)\<rparr>]"

definition failing_pipeline :: clf_pipeline where
  "failing_pipeline = (\<lambda>_. Inl (Exception ''CUDA out of memory''))"

definition sample_fine_scores :: "(string, real) pydict" where
  "sample_fine_scores =
     [(''Martyr'', py_float (95 / 100)), (''Rebel'', py_float (90 / 100)),
      (''Guardian'', py_float (89 / 100)), (''Victim'', py_float (4 / 10))]"

section \<open>Stage 1: entity spans\<close>

text \<open>The code points that \<open>str.strip()\<close>, \<open>lstrip()\<close> and \<open>rstrip()\<close> remove.\<close>

definition py_isspace :: "nat \<Rightarrow> bool" where
  "py_isspace c \<longleftrightarrow>
     (9 \<le> c \<and> c \<le> 13) \<or> (28 \<le> c \<and> c \<le> 32) \<or> c = 133 \<or> c = 160 \<or> c = 5760
     \<or> (8192 \<le> c \<and> c \<le> 8202) \<or> c = 8232 \<or> c = 8233 \<or> c = 8239 \<or> c = 8287
     \<or> c = 12288"

definition lstrip :: "pystr \<Rightarrow> pystr" where
  "lstrip seg = dropWhile py_isspace seg"

definition rstrip :: "pystr \<Rightarrow> pystr" where
  "rstrip seg = rev (dropWhile py_isspace (rev seg))"

definition strip :: "pystr \<Rightarrow> pystr" where
  "strip seg = lstrip (rstrip seg)"

text \<open>\<open>s.replace(old, new)\<close> for single characters.\<close>

definition replace_char :: "nat \<Rightarrow> nat \<Rightarrow> pystr \<Rightarrow> pystr" where
  "replace_char old new seg = map (\<lambda>c. if c = old then new else c) seg"

text \<open>
  The slice \<open>xs[s:e]\<close>: a negative index counts from the end, both indices are clamped
  to the sequence, and the slice is empty when the bounds cross.  It never raises.
\<close>

definition slice_index :: "int \<Rightarrow> int \<Rightarrow> int" where
  "slice_index n i = (if i < 0 then max 0 (i + n) else min i n)"

definition py_slice :: "'a list \<Rightarrow> int \<Rightarrow> int \<Rightarrow> 'a list" where
  "py_slice xs s e =
     (let n = int (length xs); lo = slice_index n s; hi = slice_index n e
      in take (nat (hi - lo)) (drop (nat lo) xs))"

text \<open>A span as the entity extractor returns it (\<open>bert_model.predict\<close>).\<close>

record span =
  span_start :: int
  span_end :: int
  prob_antagonist :: real
  prob_protagonist :: real
  prob_innocent :: real
  prob_unknown :: real

text \<open>
  The body of the first loop of \<open>predict_with_cached_model\<close>, lines 85-95: the offsets
  are moved inwards over the whitespace at both ends of the slice, and the role is the
  second component of the largest (probability, name) pair.  Pairs are compared as
  Python compares tuples: by probability, then by name.
\<close>

definition adjust_span :: "pystr \<Rightarrow> span \<Rightarrow> int \<times> int \<times> string" where
  "adjust_span text sp =
     (let s = span_start sp; e = span_end sp;
          seg = py_slice text s e;
          s = s + (int (length seg) - int (length (lstrip seg)));
          e = e - (int (length seg) - int (length (rstrip seg)));
          role_probs = [(prob_protagonist sp, ''Protagonist''),
                        (prob_innocent sp, ''Innocent''),
                        (prob_unknown sp, ''Unknown'')];
          (_, role) = py_max1 (prob_antagonist sp, ''Antagonist'') role_probs
      in (s, e, role))"

text \<open>
  One line of the output, before it is joined with tabs:
  \<open>article_id, entity_text, s, e, role\<close>.
\<close>

record prediction =
  pred_article_id :: string
  pred_entity_text :: pystr
  pred_start :: int
  pred_end :: int
  pred_role :: string

definition output_line :: "string \<Rightarrow> pystr \<Rightarrow> int \<times> int \<times> string \<Rightarrow> prediction" where
  "output_line aid text p =
     (case p of (s, e, role) \<Rightarrow>
        \<lparr>pred_article_id = aid,
         pred_entity_text = strip (replace_char 13 32 (replace_char 10 32 (py_slice text s e))),
         pred_start = s, pred_end = e, pred_role = role\<rparr>)"

text \<open>
  \<open>predict_with_cached_model\<close>, lines 73-115, on the spans that the model predicts
  for the text.  It returns the output lines and the number of spans whose role is not
  \<open>Unknown\<close>; the two files it writes hold the same lines.
\<close>

definition predict_with_cached_model ::
  "string \<Rightarrow> span list \<Rightarrow> pystr \<Rightarrow> prediction list \<times> nat" where
  "predict_with_cached_model aid spans text =
     (let pred_spans = map (adjust_span text) spans;
          output_lines = map (output_line aid text) pred_spans;
          non_unknown = length (filter (\<lambda>(s, e, role). role \<noteq> ''Unknown'') pred_spans)
      in (output_lines, non_unknown))"

definition main_roles :: "string set" where
  "main_roles = {''Protagonist'', ''Antagonist'', ''Innocent'', ''Unknown''}"

definition sample_span :: "int \<Rightarrow> int \<Rightarrow> span" where
  "sample_span s e = \<lparr>span_start = s, span_end = e, prob_antagonist = 1 / 10,
                      prob_protagonist = 7 / 10, prob_innocent = 1 / 10,
                      prob_unknown = 1 / 10\<rparr>"

section \<open>Model availability\<close>

text \<open>
  Lines 160-175.  \<open>load_ner_model\<close> and \<open>load_stage2_model\<close> return the model, or
  \<open>None\<close> after a failure.  The result is the pair of \<open>PREDICTION_AVAILABLE\<close> and
  \<open>prediction_error\<close>; the four branches are kept in the order of the source.
\<close>

definition prediction_status :: "'n option \<Rightarrow> 'c option \<Rightarrow> bool \<times> string option" where
  "prediction_status NER_MODEL STAGE2_MODEL =
     (if NER_MODEL \<noteq> None \<and> STAGE2_MODEL \<noteq> None then (True, None)
      else if NER_MODEL = None then (False, Some ''NER model failed to load'')
      else if STAGE2_MODEL = None then (False, Some ''Stage 2 model failed to load'')
      else (False, Some ''Both models failed to load''))"

definition PREDICTION_AVAILABLE :: "'n option \<Rightarrow> 'c option \<Rightarrow> bool" where
  "PREDICTION_AVAILABLE NER_MODEL STAGE2_MODEL = fst (prediction_status NER_MODEL STAGE2_MODEL)"

definition prediction_error :: "'n option \<Rightarrow> 'c option \<Rightarrow> string option" where
  "prediction_error NER_MODEL STAGE2_MODEL = snd (prediction_status NER_MODEL STAGE2_MODEL)"

section \<open>The role filter\<close>

text \<open>
  A mention is a dict; \<open>m.get("main_role")\<close> is the value of its key \<open>main_role\<close>, or
  \<open>None\<close> when the key is absent.  The other keys of a mention are the extension of
  the record.  The labels map an entity to the list of its mentions, and the role filter
  is the collection that \<open>in\<close> tests.
\<close>

record mention =
  main_role :: "string option"

type_synonym 'a labels = "(pystr, 'a mention_scheme list) pydict"

text \<open>\<open>filter_labels_by_role\<close>, lines 184-192.\<close>

definition filter_labels_by_role :: "'a labels \<Rightarrow> string option list \<Rightarrow> 'a labels" where
  "filter_labels_by_role labels role_filter =
     foldl (\<lambda>filtered (entity, mentions).
              let filtered_mentions = filter (\<lambda>m. main_role m \<in> set role_filter) mentions
              in if filtered_mentions \<noteq> [] then dict_set filtered entity filtered_mentions
                 else filtered)
           [] labels"

section \<open>Rendering sentence by sentence\<close>

text \<open>
  \<open>format_sentence_with_spans\<close> is imported from \<open>render_text\<close>; the loops of Home.py
  only call it.  It is a parameter here: a function of the sentence, the labels, the
  threshold, \<open>hide_repeat\<close>, the compact flag and the accumulator of seen entities
  (\<open>None\<close> is Python's \<open>None\<close>), returning the markup and the updated accumulator.
\<close>

type_synonym ('a, 's) formatter =
  "pystr \<Rightarrow> 'a labels \<Rightarrow> real \<Rightarrow> bool \<Rightarrow> bool \<Rightarrow> 's option \<Rightarrow> pystr \<times> 's option"

text \<open>
  One iteration of a rendering loop, as it is observed: the sentence, the accumulator
  passed to the call, the block that is displayed and the accumulator that the call
  returned.
\<close>

record 's render_step =
  step_sentence :: pystr
  seen_before :: "'s option"
  html_block :: pystr
  seen_after :: "'s option"

text \<open>
  The body of both loops, lines 543-545 and 562-564:
  \<open>html_block, seen_fine_roles = format_sentence_with_spans(sent,
  filter_labels_by_role(labels, role_filter), threshold, hide_repeat, compact,
  seen_fine_roles)\<close>, with the variable \<open>seen_fine_roles\<close> carried to the next iteration.
\<close>

fun render_sentences ::
  "('a, 's) formatter \<Rightarrow> 'a labels \<Rightarrow> string option list \<Rightarrow> real \<Rightarrow> bool \<Rightarrow> bool
     \<Rightarrow> 's option \<Rightarrow> pystr list \<Rightarrow> 's render_step list" where
  "render_sentences fmt labels role_filter threshold hide_repeat compact_mode seen_fine_roles [] = []"
| "render_sentences fmt labels role_filter threshold hide_repeat compact_mode seen_fine_roles
     (sent # sents) =
     (case fmt sent (filter_labels_by_role labels role_filter) threshold hide_repeat compact_mode
             seen_fine_roles of
        (block, seen') \<Rightarrow>
          \<lparr>step_sentence = sent, seen_before = seen_fine_roles, html_block = block,
           seen_after = seen'\<rparr>
          # render_sentences fmt labels role_filter threshold hide_repeat compact_mode seen' sents)"

text \<open>
  Lines 542-545: the sentences of one main role; \<open>seen_fine_roles = None\<close> before the
  loop, compact flag \<open>False\<close>.
\<close>

definition render_role_sentences ::
  "('a, 's) formatter \<Rightarrow> 'a labels \<Rightarrow> string option list \<Rightarrow> real \<Rightarrow> bool
     \<Rightarrow> pystr list \<Rightarrow> 's render_step list" where
  "render_role_sentences fmt labels role_filter threshold hide_repeat sents =
     render_sentences fmt labels role_filter threshold hide_repeat False None sents"

text \<open>
  Lines 561-564: the sentences of the selected fine role; \<open>seen_fine_roles = None\<close>
  again before the loop, compact flag \<open>True\<close>.
\<close>

definition render_fine_sentences ::
  "('a, 's) formatter \<Rightarrow> 'a labels \<Rightarrow> string option list \<Rightarrow> real \<Rightarrow> bool
     \<Rightarrow> pystr list \<Rightarrow> 's render_step list" where
  "render_fine_sentences fmt labels role_filter threshold hide_repeat sents =
     render_sentences fmt labels role_filter threshold hide_repeat True None sents"

text \<open>Sample labels, and a formatter that records the sentences it has seen.\<close>

definition sample_labels :: "unit labels" where
  "sample_labels =
     [(pystr_of ''Alice'', [\<lparr>main_role = Some ''Protagonist''\<rparr>, \<lparr>main_role = Some ''Innocent''\<rparr>]),
      (pystr_of ''Bob'', [\<lparr>main_role = Some ''Antagonist''\<rparr>]),
      (pystr_of ''Carol'', [\<lparr>main_role = None\<rparr>, \<lparr>main_role = Some ''Protagonist''\<rparr>])]"

definition recording_formatter :: "('a, pystr list) formatter" where
  "recording_formatter sent labels threshold hide_repeat compact_mode seen =
     (sent, Some ((case seen of None \<Rightarrow> [] | Some xs \<Rightarrow> xs) @ [sent]))"

section \<open>The span annotator\<close>

text \<open>
  Home.py imports \<open>reformat_text_html_with_tooltips\<close> from the module \<open>render_text\<close>
  (line 8) and calls it at line 442; its code is in that module, not in Home.py.  The
  annotator is therefore written down from the specification, section 4.1
  (\<open>annotate_document\<close>) and section 3 (the data model).
\<close>

text \<open>
  Modelled from the spec: the Mention of section 3, whose record in \<open>render_text\<close> is
  missing: entity display text, half-open character offsets, main role, the fine roles
  within the margin and the fine-role confidences.
\<close>

record annotated_mention = mention +
  entity_text :: pystr
  start_offset :: int
  end_offset :: int
  fine_roles :: "string list"
  fine_scores :: "(string, real) pydict"

text \<open>
  Modelled from the spec: the HTML escaping of plain text ("emit the next character as
  plain (HTML-escaped) text"), missing with \<open>render_text\<close>; the five characters that
  HTML escaping replaces are \<open>&\<close>, \<open><\<close>, \<open>>\<close> and the two quotes.
\<close>

definition html_escape_char :: "nat \<Rightarrow> pystr" where
  "html_escape_char c =
     (if c = 38 then pystr_of ''&amp;''
      else if c = 60 then pystr_of ''&lt;''
      else if c = 62 then pystr_of ''&gt;''
      else if c = 34 then pystr_of ''&quot;''
      else if c = 39 then pystr_of ''&#x27;''
      else [c])"

text \<open>
  Modelled from the spec: the HTML-escaped form of a text, missing with \<open>render_text\<close>:
  every character escaped, in order.
\<close>

definition html_escape :: "pystr \<Rightarrow> pystr" where
  "html_escape text = concat (map html_escape_char text)"

text \<open>
  Modelled from the spec: "mention offsets outside text bounds are clamped/dropped
  rather than raising"; the clamping of an offset to the text, missing with
  \<open>render_text\<close>.
\<close>

definition clamp_offset :: "pystr \<Rightarrow> int \<Rightarrow> nat" where
  "clamp_offset text i = nat (max 0 (min i (int (length text))))"

text \<open>
  Modelled from the spec: the test, missing with \<open>render_text\<close>, that a mention's range
  begins at position \<open>i\<close> and may be rendered there: its clamped range starts at \<open>i\<close>
  and is not empty, and with \<open>hide_repeat\<close> its entity text has not been annotated
  before ("only the first occurrence of a given entity text is wrapped").
\<close>

definition begins_at ::
  "pystr \<Rightarrow> bool \<Rightarrow> pystr list \<Rightarrow> nat \<Rightarrow> annotated_mention \<Rightarrow> bool" where
  "begins_at text hide_repeat seen i m \<longleftrightarrow>
     clamp_offset text (start_offset m) = i
     \<and> i < clamp_offset text (end_offset m)
     \<and> \<not> (hide_repeat \<and> entity_text m \<in> set seen)"

text \<open>
  Modelled from the spec: the overlap tie-break, missing with \<open>render_text\<close>: among the
  mentions that begin at the position (so all with the earliest start) the longest
  extent wins, and among those of equal extent the first in input order.
\<close>

definition select_mention ::
  "pystr \<Rightarrow> annotated_mention list \<Rightarrow> bool \<Rightarrow> pystr list \<Rightarrow> nat \<Rightarrow> annotated_mention option" where
  "select_mention text mentions hide_repeat seen i =
     (case filter (begins_at text hide_repeat seen i) mentions of
        [] \<Rightarrow> None
      | m # ms \<Rightarrow>
          Some (fold (\<lambda>x best. if clamp_offset text (end_offset best)
                                     < clamp_offset text (end_offset x)
                                  then x else best) ms m))"

text \<open>
  Modelled from the spec: the left-to-right scan of \<open>annotate_document\<close>, missing with
  \<open>render_text\<close>.  At position \<open>i\<close>: when a mention is selected, its extent is emitted
  as one highlighted span and the scan advances past it; otherwise the character is
  emitted escaped.  The markup of a span (style by main role, tooltip) is the parameter
  \<open>render_span\<close>, applied to the mention and the escaped text of its extent.
\<close>

function scan ::
  "(annotated_mention \<Rightarrow> pystr \<Rightarrow> pystr) \<Rightarrow> pystr \<Rightarrow> annotated_mention list \<Rightarrow> bool
     \<Rightarrow> nat \<Rightarrow> pystr list \<Rightarrow> pystr" where
  "scan render_span text mentions hide_repeat i seen =
     (if length text \<le> i then []
      else case select_mention text mentions hide_repeat seen i of
             None \<Rightarrow>
               html_escape_char (text ! i)
               @ scan render_span text mentions hide_repeat (i + 1) seen
           | Some m \<Rightarrow>
               render_span m
                 (html_escape (take (clamp_offset text (end_offset m) - i) (drop i text)))
               @ scan render_span text mentions hide_repeat
                   (clamp_offset text (end_offset m)) (entity_text m # seen))"
  by pat_completeness auto
termination
proof (relation "measure (\<lambda>(render_span, text, mentions, hide_repeat, i, seen). length text - i)")
  show "wf (measure (\<lambda>(render_span, text, mentions, hide_repeat, i, seen).
                        length (text :: pystr) - (i :: nat)))"
    by simp
next
  fix render_span :: "annotated_mention \<Rightarrow> pystr \<Rightarrow> pystr"
  fix doc :: pystr and mentions :: "annotated_mention list" and hide_repeat :: bool
  fix i :: nat and seen :: "pystr list"
  assume "\<not> length doc \<le> i"
  then show "((render_span, doc, mentions, hide_repeat, i + 1, seen),
              (render_span, doc, mentions, hide_repeat, i, seen))
             \<in> measure (\<lambda>(render_span, text, mentions, hide_repeat, i, seen). length text - i)"
    by simp
next
  fix render_span :: "annotated_mention \<Rightarrow> pystr \<Rightarrow> pystr"
  fix doc :: pystr and mentions :: "annotated_mention list" and hide_repeat :: bool
  fix i :: nat and seen :: "pystr list" and m :: annotated_mention
  assume open_text: "\<not> length doc \<le> i"
    and sel: "select_mention doc mentions hide_repeat seen i = Some m"
  have best: "i < clamp_offset doc (end_offset (fold (\<lambda>x best.
                  if clamp_offset doc (end_offset best) < clamp_offset doc (end_offset x)
                  then x else best) ms m0))"
    if "i < clamp_offset doc (end_offset m0)" for ms m0
    using that by (induction ms arbitrary: m0) auto
  from sel have "i < clamp_offset doc (end_offset m)"
    by (auto simp: select_mention_def begins_at_def filter_eq_Cons_iff
        split: list.splits intro!: best)
  with open_text
  show "((render_span, doc, mentions, hide_repeat, clamp_offset doc (end_offset m),
           entity_text m # seen),
          (render_span, doc, mentions, hide_repeat, i, seen))
         \<in> measure (\<lambda>(render_span, text, mentions, hide_repeat, i, seen). length text - i)"
    by simp
qed

declare scan.simps [simp del]

text \<open>
  Modelled from the spec: \<open>annotate_document(text, mentions, hide_repeat)\<close>, the
  operation behind \<open>reformat_text_html_with_tooltips\<close>, missing with \<open>render_text\<close>:
  the scan from position 0, with no entity seen yet.
\<close>

definition annotate_document ::
  "(annotated_mention \<Rightarrow> pystr \<Rightarrow> pystr) \<Rightarrow> pystr \<Rightarrow> annotated_mention list \<Rightarrow> bool
     \<Rightarrow> pystr" where
  "annotate_document render_span text mentions hide_repeat =
     scan render_span text mentions hide_repeat 0 []"

text \<open>
  Modelled from the spec: \<open>reformat_text_html_with_tooltips(text, labels, hide_repeat)\<close>
  as Home.py calls it, missing with \<open>render_text\<close>: the annotator consumes the
  per-entity label set, "each entity possibly having multiple mention records"; the
  mentions are those of all entities, in the order of the dict.
\<close>

definition reformat_text_html_with_tooltips ::
  "(annotated_mention \<Rightarrow> pystr \<Rightarrow> pystr) \<Rightarrow> pystr
     \<Rightarrow> (pystr, annotated_mention list) pydict \<Rightarrow> bool \<Rightarrow> pystr" where
  "reformat_text_html_with_tooltips render_span text labels hide_repeat =
     annotate_document render_span text (concat (map snd labels)) hide_repeat"

text \<open>
  Line 442: \<open>html = reformat_text_html_with_tooltips(article,
  filter_labels_by_role(labels, role_filter), hide_repeat)\<close>.
\<close>

definition annotated_article ::
  "(annotated_mention \<Rightarrow> pystr \<Rightarrow> pystr) \<Rightarrow> pystr
     \<Rightarrow> (pystr, annotated_mention list) pydict \<Rightarrow> string option list \<Rightarrow> bool \<Rightarrow> pystr" where
  "annotated_article render_span article labels role_filter hide_repeat =
     reformat_text_html_with_tooltips render_span article
       (filter_labels_by_role labels role_filter) hide_repeat"

text \<open>A sample span markup and sample mentions.\<close>

definition sample_render_span :: "annotated_mention \<Rightarrow> pystr \<Rightarrow> pystr" where
  "sample_render_span m inner =
     pystr_of ''<span class='' @ pystr_of (case main_role m of None \<Rightarrow> ''none'' | Some r \<Rightarrow> r)
     @ pystr_of ''>'' @ inner @ pystr_of ''</span>''"

definition sample_mention :: "string \<Rightarrow> int \<Rightarrow> int \<Rightarrow> string \<Rightarrow> annotated_mention" where
  "sample_mention entity s e role =
     \<lparr>main_role = Some role, entity_text = pystr_of entity, start_offset = s,
      end_offset = e, fine_roles = [], fine_scores = []\<rparr>"

section \<open>Dicts: keys and well-formedness\<close>

lemma dict_set_map_fst:
  "map fst (dict_set d k v) = (if k \<in> set (map fst d) then map fst d else map fst d @ [k])"
  by (induction d) force+

lemma dict_set_keys: "set (map fst (dict_set d k v)) = insert k (set (map fst d))"
  by (auto simp: dict_set_map_fst)

lemma dict_set_distinct: "distinct (map fst d) \<Longrightarrow> distinct (map fst (dict_set d k v))"
  by (simp add: dict_set_map_fst)

lemma foldl_dict_set_keys:
  "set (map fst (foldl (\<lambda>d (k, v). dict_set d k v) d0 kvs))
     = set (map fst d0) \<union> set (map fst kvs)"
proof (induction kvs arbitrary: d0)
  case Nil
  then show ?case by simp
next
  case (Cons kv kvs)
  obtain k v where kv: "kv = (k, v)" by (cases kv)
  show ?case
    unfolding kv foldl_Cons prod.case Cons.IH dict_set_keys by auto
qed

lemma foldl_dict_set_distinct:
  "distinct (map fst d0) \<Longrightarrow> distinct (map fst (foldl (\<lambda>d (k, v). dict_set d k v) d0 kvs))"
proof (induction kvs arbitrary: d0)
  case Nil
  then show ?case by simp
next
  case (Cons kv kvs)
  obtain k v where kv: "kv = (k, v)" by (cases kv)
  from Cons.prems have "distinct (map fst (dict_set d0 k v))" by (rule dict_set_distinct)
  from Cons.IH [OF this] show ?case by (simp add: kv)
qed

lemma dict_of_keys: "set (map fst (dict_of kvs)) = set (map fst kvs)"
  unfolding dict_of_def foldl_dict_set_keys by simp

lemma dict_of_is_dict: "is_dict (dict_of kvs)"
  by (simp add: dict_of_def is_dict_def foldl_dict_set_distinct)

lemma dict_set_fresh: "k \<notin> set (map fst d) \<Longrightarrow> dict_set d k v = d @ [(k, v)]"
  by (induction d) auto

lemma foldl_dict_set_fresh:
  "distinct (map fst (d0 @ kvs)) \<Longrightarrow> foldl (\<lambda>d (k, v). dict_set d k v) d0 kvs = d0 @ kvs"
proof (induction kvs arbitrary: d0)
  case Nil
  then show ?case by simp
next
  case (Cons kv kvs)
  obtain k v where kv: "kv = (k, v)" by (cases kv)
  from Cons.prems kv have fresh: "k \<notin> set (map fst d0)" by auto
  from Cons.prems kv have "distinct (map fst ((d0 @ [(k, v)]) @ kvs))" by auto
  from Cons.IH [OF this] show ?case
    by (simp add: kv dict_set_fresh [OF fresh])
qed

lemma dict_of_distinct: "distinct (map fst kvs) \<Longrightarrow> dict_of kvs = kvs"
  using foldl_dict_set_fresh [of "[]" kvs] by (simp add: dict_of_def)

section \<open>The float model\<close>

text \<open>
  \<open>bit_length\<close> and \<open>binary_exponent\<close> bracket their argument between two powers of
  two, so \<open>py_float\<close> rounds on the grid of the right exponent.  The examples are the
  values Python prints for \<open>round(0.12345, 4)\<close>, \<open>0.4 - 0.05\<close> and \<open>0.35\<close>.
\<close>

lemma bit_length_bounds:
  "0 < n \<Longrightarrow> 2 ^ (bit_length n - 1) \<le> n \<and> n < 2 ^ bit_length n"
proof (induction n rule: bit_length.induct)
  case (1 n)
  show ?case
  proof (cases "n div 2 = 0")
    case True
    with "1.prems" have "n = 1" by (simp add: div_eq_0_iff) 
    then show ?thesis by (simp add: bit_length.simps [of "Suc 0"] bit_length.simps [of 0])
  next
    case False
    then have pos: "0 < n div 2" by simp
    from "1.prems" have n0: "n \<noteq> 0" by simp
    from "1.IH" [OF n0 pos]
    have lo: "2 ^ (bit_length (n div 2) - 1) \<le> n div 2" and hi: "n div 2 < 2 ^ bit_length (n div 2)"
      by simp_all
    have bl: "bit_length n = Suc (bit_length (n div 2))"
      using n0 by (subst bit_length.simps) simp
    have blpos: "0 < bit_length (n div 2)"
      using pos by (subst bit_length.simps) simp
    then obtain k where k: "bit_length (n div 2) = Suc k" by (cases "bit_length (n div 2)") auto
    have "2 ^ (bit_length n - 1) = 2 * 2 ^ (bit_length (n div 2) - 1)"
      by (simp add: bl k)
    also have "\<dots> \<le> 2 * (n div 2)" using lo by simp
    also have "\<dots> \<le> n" by simp
    finally have a: "2 ^ (bit_length n - 1) \<le> n" .
    have "n < 2 * (n div 2) + 2" by presburger
    also have "\<dots> \<le> 2 * 2 ^ bit_length (n div 2)" using hi by simp
    finally have b: "n < 2 ^ bit_length n" by (simp add: bl)
    from a b show ?thesis ..
  qed
qed

lemma binary_exponent_ge1:
  assumes "1 \<le> y"
  shows "2 ^ nat (binary_exponent y) \<le> y \<and> y < 2 ^ nat (binary_exponent y + 1)"
proof -
  define n where "n = nat \<lfloor>y\<rfloor>"
  from assms have n: "0 < n" "real n \<le> y" "y < real n + 1"
    unfolding n_def by (simp_all add: le_floor_iff)
  from bit_length_bounds [OF n(1)]
  have lo: "2 ^ (bit_length n - 1) \<le> n" and hi: "n < 2 ^ bit_length n" by simp_all
  from hi n(1) have blpos: "0 < bit_length n" by (cases "bit_length n") auto
  have e: "binary_exponent y = int (bit_length n) - 1"
    using assms by (simp add: binary_exponent_def n_def)
  have e1: "nat (binary_exponent y) = bit_length n - 1" using blpos by (simp add: e)
  have e2: "nat (binary_exponent y + 1) = bit_length n" by (simp add: e)
  have "(2::real) ^ (bit_length n - 1) \<le> real n"
    using lo by (metis of_nat_le_iff of_nat_numeral of_nat_power)
  then have a: "2 ^ nat (binary_exponent y) \<le> y" using n(2) unfolding e1 by linarith
  have "n + 1 \<le> 2 ^ bit_length n" using hi by simp
  then have "real (n + 1) \<le> 2 ^ bit_length n"
    by (metis of_nat_le_iff of_nat_numeral of_nat_power)
  then have b: "y < 2 ^ nat (binary_exponent y + 1)" using n(3) by (simp add: e2)
  from a b show ?thesis ..
qed

lemma binary_exponent_lt1:
  assumes "0 < y" "y < 1"
  shows "1 / 2 ^ nat (- binary_exponent y) \<le> y \<and> y < 2 / 2 ^ nat (- binary_exponent y)"
proof -
  define z where "z = 1 / y"
  define m where "m = nat (\<lceil>z\<rceil> - 1)"
  from assms have z1: "1 < z" by (simp add: z_def)
  then have c2: "2 \<le> \<lceil>z\<rceil>" by linarith
  then have m: "0 < m" "real m < z" "z \<le> real m + 1"
    unfolding m_def by (simp_all add: of_nat_diff) linarith+
  from bit_length_bounds [OF m(1)]
  have lo: "2 ^ (bit_length m - 1) \<le> m" and hi: "m < 2 ^ bit_length m" by simp_all
  from hi m(1) have blpos: "0 < bit_length m" by (cases "bit_length m") auto
  then obtain k where k: "bit_length m = Suc k" by (cases "bit_length m") auto
  have e: "nat (- binary_exponent y) = bit_length m"
    using assms by (simp add: binary_exponent_def m_def z_def)
  have "m + 1 \<le> 2 ^ bit_length m" using hi by simp
  then have "real (m + 1) \<le> 2 ^ bit_length m"
    by (metis of_nat_le_iff of_nat_numeral of_nat_power)
  with m(3) have zle: "z \<le> 2 ^ bit_length m" by simp
  have "(2::real) ^ (bit_length m - 1) \<le> real m"
    using lo by (metis of_nat_le_iff of_nat_numeral of_nat_power)
  with m(2) have "2 ^ (bit_length m - 1) < z" by linarith
  then have zgt: "2 ^ k < z" unfolding k by simp
  from zle assms(1) have a: "1 / 2 ^ bit_length m \<le> y"
    by (simp add: z_def field_simps)
  from zgt assms(1) have "y < 1 / 2 ^ k"
    by (simp add: z_def field_simps)
  then have b: "y < 2 / 2 ^ bit_length m" by (simp add: k)
  from a b show ?thesis by (simp add: e)
qed

lemma py_round_example: "py_round (py_float (12345 / 100000)) 4 = py_float (1235 / 10000)"
  by code_simp

lemma float_sub_example:
  "float_sub (py_float (4 / 10)) (py_float (5 / 100)) = 6305039478318695 / 18014398509481984
   \<and> py_float (35 / 100) = 6305039478318694 / 18014398509481984"
  by code_simp

section \<open>The confidence filter and its order\<close>

lemma distinct_keys_sort_key:
  "distinct (map fst (sort_key f xs)) = distinct (map fst xs)"
proof -
  have "mset (map fst (sort_key f xs)) = mset (map fst xs)" by simp
  then show ?thesis by (rule mset_eq_imp_distinct_iff)
qed

lemma pipeline_keys:
  assumes "clf (input_text ex) = Inr (scores # rest)"
  shows "set (map fst (pipeline_with_confidence clf threshold ex))
         = label ` {s \<in> set scores. threshold < score s}"
proof -
  define kvs where "kvs = map (\<lambda>s. (label s, py_round (score s) 4))
                            (filter (\<lambda>s. score s > threshold) scores)"
  have "pipeline_with_confidence clf threshold ex = dict_of (sorted_by_value_desc (dict_of kvs))"
    using assms by (simp add: pipeline_with_confidence_def kvs_def)
  then have "set (map fst (pipeline_with_confidence clf threshold ex))
      = set (map fst (sorted_by_value_desc (dict_of kvs)))"
    by (simp only: dict_of_keys)
  also have "\<dots> = set (map fst (dict_of kvs))"
    by (simp add: sorted_by_value_desc_def)
  also have "\<dots> = set (map fst kvs)" by (rule dict_of_keys)
  also have "\<dots> = label ` {s \<in> set scores. threshold < score s}"
    by (auto simp: kvs_def)
  finally show ?thesis .
qed

lemma sorted_by_value_desc_sorted:
  "sorted_wrt (\<lambda>a b. snd b \<le> snd a) (sorted_by_value_desc (kvs :: ('k \<times> real) list))"
proof -
  have "sorted (map (\<lambda>x. - snd x) (sort_key (\<lambda>x. - snd x) kvs))" by (rule sorted_sort_key)
  then show ?thesis unfolding sorted_by_value_desc_def sorted_map by simp
qed

lemma pipeline_is_sorted_dict:
  "\<exists>kvs. is_dict kvs \<and> pipeline_with_confidence clf threshold ex = sorted_by_value_desc kvs
         \<or> pipeline_with_confidence clf threshold ex = []"
proof (cases "clf (input_text ex)")
  case (Inl e)
  then show ?thesis by (simp add: pipeline_with_confidence_def)
next
  case (Inr res)
  show ?thesis
  proof (cases res)
    case Nil
    with Inr show ?thesis by (simp add: pipeline_with_confidence_def)
  next
    case (Cons scores rest)
    define fs where "fs = dict_of (map (\<lambda>s. (label s, py_round (score s) 4))
                            (filter (\<lambda>s. score s > threshold) scores))"
    have d: "is_dict fs" unfolding fs_def by (rule dict_of_is_dict)
    then have "distinct (map fst (sorted_by_value_desc fs))"
      by (simp add: sorted_by_value_desc_def distinct_keys_sort_key is_dict_def)
    then have "dict_of (sorted_by_value_desc fs) = sorted_by_value_desc fs"
      by (rule dict_of_distinct)
    moreover have "pipeline_with_confidence clf threshold ex = dict_of (sorted_by_value_desc fs)"
      using Inr Cons by (simp add: pipeline_with_confidence_def fs_def)
    ultimately show ?thesis using d by auto
  qed
qed

lemma pipeline_is_dict: "is_dict (pipeline_with_confidence clf threshold ex)"
  using pipeline_is_sorted_dict [of clf threshold ex]
  by (auto simp: is_dict_def sorted_by_value_desc_def distinct_keys_sort_key)

lemmas eval_pipeline =
  pipeline_with_confidence_def const_pipeline_def failing_pipeline_def dict_of_def
  sorted_by_value_desc_def Let_def sample_example_def

text \<open>
  C1, as the claim states it, fails: an entry whose score equals the threshold is
  dropped, since the filter at line 135 is \<open>s['score'] > threshold\<close>.  With the single
  entry \<open>Guardian: 0.5\<close> and threshold \<open>0.5\<close> the result has no key \<open>Guardian\<close>.
\<close>

theorem threshold_boundary_counterexample:
  "score \<lparr>label = ''Guardian'', score = 1 / 2\<rparr> = 1 / 2
   \<and> ''Guardian'' \<notin> set (map fst
      (pipeline_with_confidence (const_pipeline [\<lparr>label = ''Guardian'', score = 1 / 2\<rparr>])
         (1 / 2) sample_example))
   \<and> pipeline_with_confidence (const_pipeline [\<lparr>label = ''Guardian'', score = 1 / 2\<rparr>])
         (1 / 2) sample_example = []"
  by (simp add: eval_pipeline)

text \<open>
  C1, amended: when the classifier answers, a label is a key of the result of
  \<open>pipeline_with_confidence\<close> exactly when some entry with that label has a score
  strictly above the threshold; entries at or below the threshold contribute nothing.
\<close>

theorem threshold_filter_strict:
  assumes "clf (input_text ex) = Inr (scores # rest)"
  shows "l \<in> set (map fst (pipeline_with_confidence clf threshold ex))
         \<longleftrightarrow> (\<exists>s \<in> set scores. label s = l \<and> threshold < score s)"
  using pipeline_keys [of clf ex scores rest threshold] assms by auto

theorem threshold_filter_strict_witness:
  "const_pipeline sample_scores (input_text sample_example) = Inr (sample_scores # [])
   \<and> ''Martyr'' \<in> set (map fst
        (pipeline_with_confidence (const_pipeline sample_scores) (1 / 2) sample_example))
   \<and> ''Guardian'' \<notin> set (map fst
        (pipeline_with_confidence (const_pipeline sample_scores) (1 / 2) sample_example))
   \<and> ''Victim'' \<notin> set (map fst
        (pipeline_with_confidence (const_pipeline sample_scores) (1 / 2) sample_example))"
proof -
  have h: "const_pipeline sample_scores (input_text sample_example) = Inr (sample_scores # [])"
    by (simp add: const_pipeline_def)
  note t1 = threshold_filter_strict [of "const_pipeline sample_scores" sample_example
        sample_scores "[]" "''Martyr''" "1 / 2", OF h]
  note t2 = threshold_filter_strict [of "const_pipeline sample_scores" sample_example
        sample_scores "[]" "''Guardian''" "1 / 2", OF h]
  note t3 = threshold_filter_strict [of "const_pipeline sample_scores" sample_example
        sample_scores "[]" "''Victim''" "1 / 2", OF h]
  have r1: "\<exists>s \<in> set sample_scores. label s = ''Martyr'' \<and> 1 / 2 < score s"
    by code_simp
  have r2: "\<not> (\<exists>s \<in> set sample_scores. label s = ''Guardian'' \<and> 1 / 2 < score s)"
    by code_simp
  have r3: "\<not> (\<exists>s \<in> set sample_scores. label s = ''Victim'' \<and> 1 / 2 < score s)"
    by code_simp
  from h t1 t2 t3 r1 r2 r3 show ?thesis by blast
qed

text \<open>
  C5: the dict returned by \<open>pipeline_with_confidence\<close> lists its entries in
  non-increasing order of confidence, whatever the classifier answers.
\<close>

theorem fine_role_confidences_descending:
  "sorted_wrt (\<lambda>a b. snd b \<le> snd a) (pipeline_with_confidence clf threshold ex)"
  using pipeline_is_sorted_dict [of clf threshold ex]
  by (auto simp: sorted_by_value_desc_sorted)

theorem fine_role_confidences_descending_witness:
  "pipeline_with_confidence (const_pipeline sample_scores) default_threshold sample_example
     = [(''Martyr'', py_float (95 / 100)), (''Guardian'', 1 / 2),
        (''Victim'', py_float (4 / 10)), (''Rebel'', py_float (1235 / 10000))]
   \<and> sorted_wrt (\<lambda>a b. snd b \<le> snd a)
        (pipeline_with_confidence (const_pipeline sample_scores) default_threshold
           sample_example)"
proof -
  have v: "pipeline_with_confidence (const_pipeline sample_scores) default_threshold
      sample_example
     = [(''Martyr'', py_float (95 / 100)), (''Guardian'', 1 / 2),
        (''Victim'', py_float (4 / 10)), (''Rebel'', py_float (1235 / 10000))]"
    by code_simp
  from v fine_role_confidences_descending
    [of "const_pipeline sample_scores" default_threshold sample_example]
  show ?thesis by blast
qed

section \<open>The margin filter\<close>

lemma py_max_Max: "xs \<noteq> [] \<Longrightarrow> py_max xs = Some (Max (set xs))"
proof (cases xs)
  case Nil
  then show "xs \<noteq> [] \<Longrightarrow> ?thesis" by simp
next
  case (Cons x ys)
  have "(\<lambda>y m. if m < y then y else m) = (max :: 'a \<Rightarrow> 'a \<Rightarrow> 'a)"
    by (intro ext) (auto simp: max_def)
  then have "py_max xs = Some (fold max ys x)" by (simp add: Cons py_max1_def)
  also have "fold max ys x = Max (set (x # ys))" by (rule Max.set_eq_fold [symmetric])
  finally show ?thesis by (simp add: Cons)
qed

lemma select_roles_eq:
  assumes ne: "scores \<noteq> []"
  shows "select_roles_within_margin scores margin
     = map fst (filter (\<lambda>(role, sc). float_sub (Max (snd ` set scores)) margin \<le> sc) scores)"
proof -
  have c: "\<And>P. concat (map (\<lambda>(role, sc). if P sc then [role] else []) scores)
        = map fst (filter (\<lambda>(role, sc). P sc) scores)"
    by (induction scores) auto
  from ne have "py_max (map snd scores) = Some (Max (snd ` set scores))"
    using py_max_Max [of "map snd scores"] by simp
  with ne show ?thesis
    by (simp add: select_roles_within_margin_def c)
qed

lemma select_roles_empty: "select_roles_within_margin [] margin = []"
  by (simp add: select_roles_within_margin_def)

lemma restrict_by_keys:
  assumes "distinct (map fst scores)"
  shows "concat (map (\<lambda>role. case map_of scores role of Some v \<Rightarrow> [(role, v)] | None \<Rightarrow> [])
                     (map fst (filter P scores))) = filter P scores"
proof -
  have "map (\<lambda>role. case map_of scores role of Some v \<Rightarrow> [(role, v)] | None \<Rightarrow> [])
            (map fst (filter P scores)) = map (\<lambda>kv. [kv]) (filter P scores)"
    using assms by (auto simp: comp_def)
  then have "concat (map (\<lambda>role. case map_of scores role of Some v \<Rightarrow> [(role, v)] | None \<Rightarrow> [])
                     (map fst (filter P scores))) = concat (map (\<lambda>kv. [kv]) (filter P scores))"
    by (rule arg_cong)
  then show ?thesis by (simp only: concat_map_singleton list.map_ident)
qed

lemma filter_scores_eq:
  assumes "is_dict scores"
  shows "filter_scores_by_margin scores (map fst (filter P scores)) = filter P scores"
proof -
  from assms have d: "distinct (map fst scores)" by (simp add: is_dict_def)
  then have "distinct (map fst (filter P scores))" by (rule distinct_map_filter)
  then have "dict_of (filter P scores) = filter P scores" by (rule dict_of_distinct)
  then show ?thesis
    unfolding filter_scores_by_margin_def restrict_by_keys [OF d] .
qed

lemma filter_scores_empty: "filter_scores_by_margin scores [] = []"
  by (simp add: filter_scores_by_margin_def dict_of_def)

text \<open>
  C2, as the claim states it, fails: \<open>top_score - margin\<close> is a subtraction of floats,
  and its rounding moves the boundary.  In \<open>{'T': 0.4, 'S': 0.35}\<close> with margin \<open>0.05\<close>
  the score of \<open>S\<close> is the maximum minus the margin, yet only \<open>T\<close> is returned, since
  the float \<open>0.4 - 0.05\<close> lies above the float \<open>0.35\<close>.  In \<open>{'T': 0.1751, 'S': 0.1251}\<close>
  the exact value of the float \<open>0.1251\<close> is below the exact difference of the floats
  \<open>0.1751\<close> and \<open>0.05\<close>, yet \<open>S\<close> is returned.
\<close>

theorem margin_boundary_counterexample:
  "(35 / 100 :: real) \<ge> 4 / 10 - 5 / 100
   \<and> select_roles_within_margin [(''T'', py_float (4 / 10)), (''S'', py_float (35 / 100))]
        (py_float (5 / 100)) = [''T'']
   \<and> py_float (1251 / 10000) < py_float (1751 / 10000) - py_float (5 / 100)
   \<and> select_roles_within_margin
        [(''T'', py_float (1751 / 10000)), (''S'', py_float (1251 / 10000))]
        (py_float (5 / 100)) = [''T'', ''S'']"
  by code_simp

text \<open>
  C2, amended: on a non-empty score dict \<open>select_roles_within_margin\<close> returns, in the
  dict's order, exactly the roles whose score is at least the float that the program
  computes as \<open>top_score - margin\<close>, the exact difference of the maximum score and the
  margin rounded to the nearest float; on the empty dict it returns the empty list; and
  \<open>filter_scores_by_margin\<close> on a (well-formed) score dict and its selected roles is
  the score dict restricted to exactly those entries.
\<close>

theorem margin_selection:
  "select_roles_within_margin [] margin = []
   \<and> (scores \<noteq> [] \<longrightarrow>
        select_roles_within_margin scores margin
          = map fst (filter (\<lambda>(role, sc). sc \<ge> float_sub (Max (snd ` set scores)) margin)
                       scores))
   \<and> (scores \<noteq> [] \<longrightarrow>
        (role \<in> set (select_roles_within_margin scores margin)
           \<longleftrightarrow> (\<exists>sc. (role, sc) \<in> set scores
                     \<and> sc \<ge> float_sub (Max (snd ` set scores)) margin)))
   \<and> (is_dict scores \<longrightarrow>
        filter_scores_by_margin scores (select_roles_within_margin scores margin)
          = filter (\<lambda>(role, sc). sc \<ge> float_sub (Max (snd ` set scores)) margin) scores)"
proof (intro conjI impI)
  show "select_roles_within_margin [] margin = []" by (rule select_roles_empty)
next
  assume "scores \<noteq> []"
  then show "select_roles_within_margin scores margin
          = map fst (filter (\<lambda>(role, sc). sc \<ge> float_sub (Max (snd ` set scores)) margin)
                       scores)"
    by (rule select_roles_eq)
next
  assume "scores \<noteq> []"
  then show "role \<in> set (select_roles_within_margin scores margin)
           \<longleftrightarrow> (\<exists>sc. (role, sc) \<in> set scores
                     \<and> sc \<ge> float_sub (Max (snd ` set scores)) margin)"
    by (force simp: select_roles_eq)
next
  assume d: "is_dict scores"
  show "filter_scores_by_margin scores (select_roles_within_margin scores margin)
          = filter (\<lambda>(role, sc). sc \<ge> float_sub (Max (snd ` set scores)) margin) scores"
  proof (cases "scores = []")
    case True
    then show ?thesis by (simp add: select_roles_empty filter_scores_empty)
  next
    case False
    show ?thesis by (simp only: select_roles_eq [OF False] filter_scores_eq [OF d])
  qed
qed

theorem margin_selection_witness:
  "sample_fine_scores \<noteq> [] \<and> is_dict sample_fine_scores
   \<and> select_roles_within_margin sample_fine_scores default_margin
      = map fst (filter (\<lambda>(role, sc).
            sc \<ge> float_sub (Max (snd ` set sample_fine_scores)) default_margin)
          sample_fine_scores)
   \<and> select_roles_within_margin sample_fine_scores default_margin = [''Martyr'', ''Rebel'']
   \<and> filter_scores_by_margin sample_fine_scores
        (select_roles_within_margin sample_fine_scores default_margin)
      = filter (\<lambda>(role, sc).
            sc \<ge> float_sub (Max (snd ` set sample_fine_scores)) default_margin)
          sample_fine_scores
   \<and> filter_scores_by_margin sample_fine_scores
        (select_roles_within_margin sample_fine_scores default_margin)
      = [(''Martyr'', py_float (95 / 100)), (''Rebel'', py_float (90 / 100))]"
proof -
  have ne: "sample_fine_scores \<noteq> []" by (simp add: sample_fine_scores_def)
  have d: "is_dict sample_fine_scores" by code_simp
  note c = margin_selection [of default_margin sample_fine_scores "''Rebel''"]
  from c ne have e1: "select_roles_within_margin sample_fine_scores default_margin
      = map fst (filter (\<lambda>(role, sc).
            sc \<ge> float_sub (Max (snd ` set sample_fine_scores)) default_margin)
          sample_fine_scores)"
    by blast
  from c d have e2: "filter_scores_by_margin sample_fine_scores
        (select_roles_within_margin sample_fine_scores default_margin)
      = filter (\<lambda>(role, sc).
            sc \<ge> float_sub (Max (snd ` set sample_fine_scores)) default_margin)
          sample_fine_scores"
    by blast
  have v1: "select_roles_within_margin sample_fine_scores default_margin
      = [''Martyr'', ''Rebel'']"
    by code_simp
  have v2: "filter_scores_by_margin sample_fine_scores
        (select_roles_within_margin sample_fine_scores default_margin)
      = [(''Martyr'', py_float (95 / 100)), (''Rebel'', py_float (90 / 100))]"
    by code_simp
  from ne d e1 v1 e2 v2 show ?thesis by blast
qed

section \<open>A failing classifier\<close>

lemma run_stage2_rows:
  assumes "df \<noteq> []"
  shows "\<exists>rows. run_stage2_with_cached_model aid clf df threshold margin = Inr rows
    \<and> length rows = length df
    \<and> (\<forall>i < length df. rows ! i =
         \<lparr>entity_mention = entity_mention (df ! i), p_main_role = p_main_role (df ! i),
          context_text = context_text (df ! i),
          predicted_fine_with_scores = pipeline_with_confidence clf threshold (df ! i),
          predicted_fine_margin =
            select_roles_within_margin (pipeline_with_confidence clf threshold (df ! i)) margin,
          p_fine_roles_w_conf =
            filter_scores_by_margin (pipeline_with_confidence clf threshold (df ! i))
              (select_roles_within_margin (pipeline_with_confidence clf threshold (df ! i))
                 margin),
          article_id = aid\<rparr>)"
  using assms by (simp add: run_stage2_with_cached_model_def Let_def)

text \<open>A frame without rows is not processed: the assignment of the first column raises.\<close>

lemma run_stage2_empty_frame:
  "run_stage2_with_cached_model aid clf [] threshold margin = Inl (Exception ''ValueError'')"
  by (simp add: run_stage2_with_cached_model_def)

lemma pipeline_raises: "clf (input_text ex) = Inl e \<Longrightarrow> pipeline_with_confidence clf threshold ex = []"
  by (simp add: pipeline_with_confidence_def)

text \<open>
  In every row of the returned frame the margin column and the margin-filtered scores
  are those of the row's score dict, which is well-formed.
\<close>

lemma run_stage2_columns:
  assumes "i < length df"
  shows "\<exists>rows. run_stage2_with_cached_model aid clf df threshold margin = Inr rows
    \<and> is_dict (predicted_fine_with_scores (rows ! i))
    \<and> predicted_fine_with_scores (rows ! i) = pipeline_with_confidence clf threshold (df ! i)
    \<and> predicted_fine_margin (rows ! i)
        = select_roles_within_margin (predicted_fine_with_scores (rows ! i)) margin
    \<and> p_fine_roles_w_conf (rows ! i)
        = filter_scores_by_margin (predicted_fine_with_scores (rows ! i))
            (predicted_fine_margin (rows ! i))
    \<and> article_id (rows ! i) = aid"
proof -
  from assms have "df \<noteq> []" by auto
  from run_stage2_rows [OF this, of aid clf threshold margin] assms show ?thesis
    by (auto simp: pipeline_is_dict)
qed

text \<open>
  C10: when the classification pipeline raises on a row, \<open>pipeline_with_confidence\<close>
  returns the empty dict for it.  \<open>run_stage2_with_cached_model\<close> still returns a frame
  with one row for every input row, and in the row of the failure the three fine-role
  columns are empty.
\<close>

theorem classifier_failure_degrades:
  assumes "i < length df" and "clf (input_text (df ! i)) = Inl e"
  shows "pipeline_with_confidence clf threshold (df ! i) = []
    \<and> (\<exists>rows. run_stage2_with_cached_model aid clf df threshold margin = Inr rows
         \<and> length rows = length df
         \<and> predicted_fine_with_scores (rows ! i) = []
         \<and> predicted_fine_margin (rows ! i) = []
         \<and> p_fine_roles_w_conf (rows ! i) = [])"
proof -
  have p: "pipeline_with_confidence clf threshold (df ! i) = []"
    using assms(2) by (rule pipeline_raises)
  from assms(1) have "df \<noteq> []" by auto
  from run_stage2_rows [OF this, of aid clf threshold margin] assms(1) p show ?thesis
    by (auto simp: select_roles_empty filter_scores_empty)
qed

theorem classifier_failure_degrades_witness:
  "0 < length [sample_example]
   \<and> failing_pipeline (input_text ([sample_example] ! 0)) = Inl (Exception ''CUDA out of memory'')
   \<and> pipeline_with_confidence failing_pipeline default_threshold ([sample_example] ! 0) = []
   \<and> run_stage2_with_cached_model ''a1'' failing_pipeline [sample_example]
        default_threshold default_margin
      = Inr [\<lparr>entity_mention = pystr_of ''Alice'', p_main_role = pystr_of ''Protagonist'',
              context_text = pystr_of ''Alice met Bob.'', predicted_fine_with_scores = [],
              predicted_fine_margin = [], p_fine_roles_w_conf = [], article_id = ''a1''\<rparr>]"
proof -
  have h: "failing_pipeline (input_text ([sample_example] ! 0))
             = Inl (Exception ''CUDA out of memory'')"
    by (simp add: failing_pipeline_def)
  have l: "(0::nat) < length [sample_example]" by simp
  note c = classifier_failure_degrades [of 0 "[sample_example]" failing_pipeline
        "Exception ''CUDA out of memory''" default_threshold "''a1''" default_margin, OF l h]
  from c have p: "pipeline_with_confidence failing_pipeline default_threshold
      ([sample_example] ! 0) = []"
    by blast
  from p have v: "run_stage2_with_cached_model ''a1'' failing_pipeline [sample_example]
        default_threshold default_margin
      = Inr [\<lparr>entity_mention = pystr_of ''Alice'', p_main_role = pystr_of ''Protagonist'',
              context_text = pystr_of ''Alice met Bob.'', predicted_fine_with_scores = [],
              predicted_fine_margin = [], p_fine_roles_w_conf = [], article_id = ''a1''\<rparr>]"
    by (simp add: run_stage2_with_cached_model_def select_roles_empty filter_scores_empty
        sample_example_def)
  from l h p v show ?thesis by blast
qed

section \<open>Whitespace trimming of entity spans\<close>

lemma rstrip_take: "rstrip seg = take (length seg - length (takeWhile py_isspace (rev seg))) seg"
  by (simp add: rstrip_def dropWhile_eq_drop rev_drop)

lemma strip_all_space:
  assumes "\<forall>c \<in> set seg. py_isspace c"
  shows "lstrip seg = []" and "rstrip seg = []" and "strip seg = []"
proof -
  from assms show l: "lstrip seg = []" by (simp add: lstrip_def)
  from assms have "\<forall>c \<in> set (rev seg). py_isspace c" by simp
  then have "dropWhile py_isspace (rev seg) = []" by (simp only: dropWhile_eq_Nil_conv)
  then show r: "rstrip seg = []" by (simp add: rstrip_def)
  then show "strip seg = []" by (simp add: strip_def lstrip_def)
qed

lemma rstrip_Cons_nonspace: "\<not> py_isspace x \<Longrightarrow> rstrip (x # rest) = x # rstrip rest"
  by (simp add: rstrip_def dropWhile_append3)

lemma rstrip_append:
  assumes "x \<in> set b" "\<not> py_isspace x"
  shows "rstrip (a @ b) = a @ rstrip b"
proof -
  from assms have "dropWhile py_isspace (rev b @ rev a) = dropWhile py_isspace (rev b) @ rev a"
    by (intro dropWhile_append1 [of x]) auto
  then show ?thesis by (simp add: rstrip_def)
qed

text \<open>The shape of a segment that holds a character other than whitespace.\<close>

lemma strip_nonspace:
  assumes "\<exists>c \<in> set seg. \<not> py_isspace c"
  shows "rstrip seg = takeWhile py_isspace seg @ strip seg" and "strip seg \<noteq> []"
proof -
  define a where "a = takeWhile py_isspace seg"
  define b where "b = dropWhile py_isspace seg"
  have seg: "seg = a @ b" by (simp add: a_def b_def)
  from assms have "b \<noteq> []" by (auto simp: b_def dropWhile_eq_Nil_conv)
  then obtain x rest where b: "b = x # rest" by (cases b) auto
  have nx: "\<not> py_isspace x" using b hd_dropWhile [of py_isspace seg] \<open>b \<noteq> []\<close>
    by (simp add: b_def)
  have rb: "rstrip b = x # rstrip rest" unfolding b by (rule rstrip_Cons_nonspace [OF nx])
  have "rstrip seg = a @ rstrip b" unfolding seg
    by (rule rstrip_append [of x]) (simp_all add: b nx)
  moreover have "strip seg = rstrip b"
  proof -
    have "strip seg = dropWhile py_isspace (a @ rstrip b)"
      using \<open>rstrip seg = a @ rstrip b\<close> by (simp add: strip_def lstrip_def)
    also have "\<dots> = dropWhile py_isspace (rstrip b)"
      by (rule dropWhile_append2) (auto simp: a_def dest: set_takeWhileD)
    also have "\<dots> = rstrip b" by (simp add: rb nx)
    finally show ?thesis .
  qed
  ultimately show "rstrip seg = takeWhile py_isspace seg @ strip seg" by (simp add: a_def)
  show "strip seg \<noteq> []" using \<open>strip seg = rstrip b\<close> rb by simp
qed

lemma strip_lengths:
  assumes "\<exists>c \<in> set seg. \<not> py_isspace c"
  shows "length (takeWhile py_isspace seg) + length (takeWhile py_isspace (rev seg)) < length seg"
proof -
  let ?L = "length (takeWhile py_isspace seg)"
  let ?R = "length (takeWhile py_isspace (rev seg))"
  have "length (rstrip seg) = ?L + length (strip seg)"
    using strip_nonspace(1) [OF assms] by simp
  moreover have "0 < length (strip seg)" using strip_nonspace(2) [OF assms] by simp
  moreover have "length (rstrip seg) = length seg - ?R" by (simp add: rstrip_take)
  ultimately show ?thesis by linarith
qed

lemma strip_drop_take:
  "strip seg = drop (length (takeWhile py_isspace seg))
                 (take (length seg - length (takeWhile py_isspace (rev seg))) seg)"
proof (cases "\<exists>c \<in> set seg. \<not> py_isspace c")
  case True
  have "drop (length (takeWhile py_isspace seg)) (rstrip seg) = strip seg"
    using strip_nonspace(1) [OF True] by simp
  then show ?thesis by (simp add: rstrip_take)
next
  case False
  then have a: "\<forall>c \<in> set seg. py_isspace c" by simp
  then have tw: "takeWhile py_isspace (rev seg) = rev seg" by (simp add: takeWhile_eq_all_conv)
  have "length (takeWhile py_isspace (rev seg)) = length seg" unfolding tw by simp
  then show ?thesis using strip_all_space(3) [OF a] by simp
qed

lemma py_slice_nat:
  assumes "0 \<le> s" "s \<le> e" "e \<le> int (length xs)"
  shows "py_slice xs s e = take (nat e - nat s) (drop (nat s) xs)"
  using assms by (simp add: py_slice_def slice_index_def Let_def nat_diff_distrib)

lemma py_slice_length:
  assumes "0 \<le> s" "s \<le> e" "e \<le> int (length xs)"
  shows "int (length (py_slice xs s e)) = e - s"
  using assms by (simp add: py_slice_nat)

lemma lstrip_length_int:
  "int (length seg) - int (length (lstrip seg)) = int (length (takeWhile py_isspace seg))"
proof -
  have "length (takeWhile py_isspace seg) + length (dropWhile py_isspace seg) = length seg"
    by (metis length_append takeWhile_dropWhile_id)
  then show ?thesis unfolding lstrip_def by linarith
qed

lemma rstrip_length_int:
  "int (length seg) - int (length (rstrip seg)) = int (length (takeWhile py_isspace (rev seg)))"
proof -
  have "length (takeWhile py_isspace (rev seg)) + length (dropWhile py_isspace (rev seg))
          = length (rev seg)"
    by (metis length_append takeWhile_dropWhile_id)
  then show ?thesis unfolding rstrip_def length_rev by linarith
qed

lemma adjust_span_offsets:
  "fst (adjust_span text sp) = span_start sp
           + int (length (takeWhile py_isspace (py_slice text (span_start sp) (span_end sp))))"
  "fst (snd (adjust_span text sp)) = span_end sp
           - int (length (takeWhile py_isspace (rev (py_slice text (span_start sp) (span_end sp)))))"
  by (simp_all add: adjust_span_def Let_def lstrip_length_int rstrip_length_int split: prod.splits)

lemma py_max1_mem: "py_max1 x xs \<in> set (x # xs)"
  unfolding py_max1_def by (induction xs arbitrary: x) auto

lemma adjust_span_role: "snd (snd (adjust_span text sp)) \<in> main_roles"
proof -
  let ?m = "py_max1 (prob_antagonist sp, ''Antagonist'')
              [(prob_protagonist sp, ''Protagonist''), (prob_innocent sp, ''Innocent''),
               (prob_unknown sp, ''Unknown'')]"
  have "snd ?m \<in> snd ` set [(prob_antagonist sp, ''Antagonist''),
            (prob_protagonist sp, ''Protagonist''), (prob_innocent sp, ''Innocent''),
            (prob_unknown sp, ''Unknown'')]"
    by (rule imageI) (rule py_max1_mem)
  then have "snd ?m \<in> main_roles" by (auto simp: main_roles_def)
  then show ?thesis by (cases ?m) (simp add: adjust_span_def Let_def)
qed


lemma adjusted_slice:
  assumes "0 \<le> span_start sp" "span_start sp \<le> span_end sp"
    "span_end sp \<le> int (length text)"
  shows "py_slice text (fst (adjust_span text sp)) (fst (snd (adjust_span text sp)))
           = strip (py_slice text (span_start sp) (span_end sp))"
proof -
  define a where "a = nat (span_start sp)"
  define b where "b = nat (span_end sp)"
  define seg where "seg = py_slice text (span_start sp) (span_end sp)"
  define L where "L = length (takeWhile py_isspace seg)"
  define R where "R = length (takeWhile py_isspace (rev seg))"
  have ab: "a \<le> b" "b \<le> length text" "span_start sp = int a" "span_end sp = int b"
    using assms by (simp_all add: a_def b_def)
  have seg: "seg = take (b - a) (drop a text)"
    using assms by (simp add: seg_def py_slice_nat a_def b_def)
  have len: "length seg = b - a" using ab by (simp add: seg)
  have "L \<le> length seg" unfolding L_def by (rule length_takeWhile_le)
  have "R \<le> length seg" unfolding R_def by (metis length_rev length_takeWhile_le)
  have "fst (adjust_span text sp) = span_start sp + int L"
    by (simp add: adjust_span_offsets L_def seg_def)
  also have "\<dots> = int (a + L)" by (simp only: ab(3) of_nat_add)
  finally have s': "fst (adjust_span text sp) = int (a + L)" .
  have "fst (snd (adjust_span text sp)) = span_end sp - int R"
    by (simp add: adjust_span_offsets R_def seg_def)
  also have "\<dots> = int b - int R" by (simp only: ab(4))
  also have "\<dots> = int (b - R)" using \<open>R \<le> length seg\<close> len by linarith
  finally have e': "fst (snd (adjust_span text sp)) = int (b - R)" .
  have "py_slice text (int (a + L)) (int (b - R))
          = take ((b - R) - (a + L)) (drop (a + L) text)"
  proof -
    have "a + L \<le> length text" using \<open>L \<le> length seg\<close> len ab by linarith
    then have lo: "slice_index (int (length text)) (int (a + L)) = int (a + L)"
      by (simp add: slice_index_def)
    have "b - R \<le> length text" using ab by linarith
    then have hi: "slice_index (int (length text)) (int (b - R)) = int (b - R)"
      by (simp add: slice_index_def)
    have "nat (int (b - R) - int (a + L)) = (b - R) - (a + L)"
      by (simp only: nat_diff_distrib' of_nat_0_le_iff nat_int)
    then show ?thesis by (simp only: py_slice_def Let_def lo hi nat_int)
  qed
  also have "\<dots> = drop L (take (length seg - R) seg)"
  proof -
    have "min (b - a - R) (b - a) = b - a - R" by linarith
    then have "take (b - a - R) seg = take (b - a - R) (drop a text)"
      unfolding seg by (simp only: take_take)
    then have "drop L (take (length seg - R) seg) = drop L (take (b - a - R) (drop a text))"
      by (simp only: len)
    also have "\<dots> = take (b - a - R - L) (drop (a + L) text)"
      by (simp only: drop_take drop_drop add.commute)
    finally have "drop L (take (length seg - R) seg)
        = take (b - a - R - L) (drop (a + L) text)" .
    moreover have "b - a - R - L = (b - R) - (a + L)" by linarith
    ultimately show ?thesis by simp
  qed
  also have "\<dots> = strip seg" unfolding L_def R_def by (rule strip_drop_take [symmetric])
  finally show ?thesis by (simp only: s' e' seg_def)
qed


lemma predict_nth:
  assumes "i < length spans"
  shows "fst (predict_with_cached_model aid spans text) ! i
           = output_line aid text (adjust_span text (spans ! i))"
  using assms by (simp add: predict_with_cached_model_def Let_def)

lemma predict_length: "length (fst (predict_with_cached_model aid spans text)) = length spans"
  by (simp add: predict_with_cached_model_def Let_def)

lemma output_line_fields:
  "pred_start (output_line aid text p) = fst p"
  "pred_end (output_line aid text p) = fst (snd p)"
  "pred_role (output_line aid text p) = snd (snd p)"
  by (simp_all add: output_line_def split: prod.splits)

lemma adjust_span_nonspace:
  assumes "0 \<le> span_start sp" "span_start sp \<le> span_end sp"
    "span_end sp \<le> int (length text)"
    and "\<exists>c \<in> set (py_slice text (span_start sp) (span_end sp)). \<not> py_isspace c"
  shows "span_start sp \<le> fst (adjust_span text sp)"
    and "fst (adjust_span text sp) < fst (snd (adjust_span text sp))"
    and "fst (snd (adjust_span text sp)) \<le> span_end sp"
proof -
  let ?seg = "py_slice text (span_start sp) (span_end sp)"
  have "int (length (takeWhile py_isspace ?seg)) + int (length (takeWhile py_isspace (rev ?seg)))
          < int (length ?seg)"
    using strip_lengths [OF assms(4)] by linarith
  moreover have "int (length ?seg) = span_end sp - span_start sp"
    using assms(1-3) by (rule py_slice_length)
  ultimately show "fst (adjust_span text sp) < fst (snd (adjust_span text sp))"
    unfolding adjust_span_offsets by linarith
  show "span_start sp \<le> fst (adjust_span text sp)"
    unfolding adjust_span_offsets by simp
  show "fst (snd (adjust_span text sp)) \<le> span_end sp"
    unfolding adjust_span_offsets by simp
qed

lemma adjust_span_all_space:
  assumes "0 \<le> span_start sp" "span_start sp \<le> span_end sp"
    "span_end sp \<le> int (length text)"
    and "\<forall>c \<in> set (py_slice text (span_start sp) (span_end sp)). py_isspace c"
  shows "fst (adjust_span text sp) = span_end sp"
    and "fst (snd (adjust_span text sp)) = span_start sp"
proof -
  let ?seg = "py_slice text (span_start sp) (span_end sp)"
  have len: "int (length ?seg) = span_end sp - span_start sp"
    using assms(1-3) by (rule py_slice_length)
  from assms(4) have "takeWhile py_isspace ?seg = ?seg"
    by (simp only: takeWhile_eq_all_conv)
  then have l: "length (takeWhile py_isspace ?seg) = length ?seg" by (rule arg_cong)
  from assms(4) have "\<forall>c \<in> set (rev ?seg). py_isspace c" by simp
  then have "takeWhile py_isspace (rev ?seg) = rev ?seg"
    by (simp only: takeWhile_eq_all_conv)
  then have "length (takeWhile py_isspace (rev ?seg)) = length (rev ?seg)" by (rule arg_cong)
  then have r: "length (takeWhile py_isspace (rev ?seg)) = length ?seg" by (simp only: length_rev)
  show "fst (adjust_span text sp) = span_end sp"
    unfolding adjust_span_offsets l using len by linarith
  show "fst (snd (adjust_span text sp)) = span_start sp"
    unfolding adjust_span_offsets r using len by linarith
qed

lemmas eval_predict =
  predict_with_cached_model_def output_line_def adjust_span_def pystr_of_def sample_span_def
  py_slice_def slice_index_def strip_def lstrip_def rstrip_def replace_char_def
  py_isspace_def py_max1_def less_char_def Let_def

text \<open>
  C4, as the claim states it, fails: a span that covers only whitespace satisfies
  \<open>0 \<le> start \<le> end \<le> len(text)\<close>, and trimming moves its start to \<open>end\<close> and its
  end to \<open>start\<close>.  On the text of two spaces the span \<open>(0, 2)\<close> is emitted with the
  offsets \<open>s = 2\<close> and \<open>e = 0\<close>.
\<close>

theorem mention_invariant_counterexample:
  "0 \<le> span_start (sample_span 0 2)
   \<and> span_start (sample_span 0 2) \<le> span_end (sample_span 0 2)
   \<and> span_end (sample_span 0 2) \<le> int (length (pystr_of ''  ''))
   \<and> predict_with_cached_model ''a1'' [sample_span 0 2] (pystr_of ''  '')
       = ([\<lparr>pred_article_id = ''a1'', pred_entity_text = [], pred_start = 2, pred_end = 0,
            pred_role = ''Protagonist''\<rparr>], 1)
   \<and> \<not> pred_start (fst (predict_with_cached_model ''a1'' [sample_span 0 2]
              (pystr_of ''  '')) ! 0)
         < pred_end (fst (predict_with_cached_model ''a1'' [sample_span 0 2]
              (pystr_of ''  '')) ! 0)"
  by (simp add: eval_predict)

text \<open>
  C4, amended: for a span with \<open>0 \<le> start \<le> end \<le> len(text)\<close> the emitted record has
  a main role among Protagonist, Antagonist, Innocent and Unknown; when the slice
  \<open>text[start:end]\<close> holds a character other than whitespace, its offsets satisfy
  \<open>start \<le> s < e \<le> end\<close>, so they are valid indices into the text; when the slice is
  empty or all whitespace, the offsets are \<open>s = end\<close> and \<open>e = start\<close>.
\<close>

theorem mention_invariant:
  assumes "i < length spans" and "sp = spans ! i"
    and "p = fst (predict_with_cached_model aid spans text) ! i"
    and "0 \<le> span_start sp" and "span_start sp \<le> span_end sp"
    and "span_end sp \<le> int (length text)"
  shows "pred_role p \<in> main_roles
    \<and> ((\<exists>c \<in> set (py_slice text (span_start sp) (span_end sp)). \<not> py_isspace c) \<longrightarrow>
          0 \<le> pred_start p \<and> span_start sp \<le> pred_start p \<and> pred_start p < pred_end p
          \<and> pred_end p \<le> span_end sp \<and> pred_end p \<le> int (length text))
    \<and> ((\<forall>c \<in> set (py_slice text (span_start sp) (span_end sp)). py_isspace c) \<longrightarrow>
          pred_start p = span_end sp \<and> pred_end p = span_start sp)"
proof -
  have p: "p = output_line aid text (adjust_span text sp)"
    using assms(1-3) by (simp add: predict_nth)
  have "pred_role p \<in> main_roles"
    unfolding p output_line_fields by (rule adjust_span_role)
  moreover have "0 \<le> pred_start p \<and> span_start sp \<le> pred_start p \<and> pred_start p < pred_end p
          \<and> pred_end p \<le> span_end sp \<and> pred_end p \<le> int (length text)"
    if "\<exists>c \<in> set (py_slice text (span_start sp) (span_end sp)). \<not> py_isspace c"
    using adjust_span_nonspace [OF assms(4-6) that] assms(4-6)
    unfolding p output_line_fields by linarith
  moreover have "pred_start p = span_end sp \<and> pred_end p = span_start sp"
    if "\<forall>c \<in> set (py_slice text (span_start sp) (span_end sp)). py_isspace c"
    using adjust_span_all_space [OF assms(4-6) that]
    unfolding p output_line_fields by simp
  ultimately show ?thesis by blast
qed

theorem mention_invariant_witness:
  "pred_role (fst (predict_with_cached_model ''a1'' [sample_span 1 8]
       (pystr_of ''x  Bob  met'')) ! 0) \<in> main_roles
   \<and> 1 \<le> pred_start (fst (predict_with_cached_model ''a1'' [sample_span 1 8]
       (pystr_of ''x  Bob  met'')) ! 0)
   \<and> pred_start (fst (predict_with_cached_model ''a1'' [sample_span 1 8]
       (pystr_of ''x  Bob  met'')) ! 0)
     < pred_end (fst (predict_with_cached_model ''a1'' [sample_span 1 8]
       (pystr_of ''x  Bob  met'')) ! 0)
   \<and> pred_end (fst (predict_with_cached_model ''a1'' [sample_span 1 8]
       (pystr_of ''x  Bob  met'')) ! 0) \<le> 8
   \<and> pred_start (fst (predict_with_cached_model ''a1'' [sample_span 0 2]
       (pystr_of ''  '')) ! 0) = 2
   \<and> pred_end (fst (predict_with_cached_model ''a1'' [sample_span 0 2]
       (pystr_of ''  '')) ! 0) = 0"
proof -
  have b1: "0 \<le> span_start (sample_span 1 8)"
    "span_start (sample_span 1 8) \<le> span_end (sample_span 1 8)"
    "span_end (sample_span 1 8) \<le> int (length (pystr_of ''x  Bob  met''))"
    by (simp_all add: sample_span_def pystr_of_def)
  have b2: "0 \<le> span_start (sample_span 0 2)"
    "span_start (sample_span 0 2) \<le> span_end (sample_span 0 2)"
    "span_end (sample_span 0 2) \<le> int (length (pystr_of ''  ''))"
    by (simp_all add: sample_span_def pystr_of_def)
  have ns: "\<exists>c \<in> set (py_slice (pystr_of ''x  Bob  met'') 1 8). \<not> py_isspace c"
    by (simp add: pystr_of_def py_slice_def slice_index_def py_isspace_def)
  have sp: "\<forall>c \<in> set (py_slice (pystr_of ''  '') 0 2). py_isspace c"
    by (simp add: pystr_of_def py_slice_def slice_index_def py_isspace_def)
  have se: "span_start (sample_span 1 8) = 1" "span_end (sample_span 1 8) = 8"
    "span_start (sample_span 0 2) = 0" "span_end (sample_span 0 2) = 2"
    by (simp_all add: sample_span_def)
  note c1 = mention_invariant [of 0 "[sample_span 1 8]" "sample_span 1 8"
      "fst (predict_with_cached_model ''a1'' [sample_span 1 8] (pystr_of ''x  Bob  met'')) ! 0"
      "''a1''" "pystr_of ''x  Bob  met''", OF _ _ refl b1, unfolded se]
  note c2 = mention_invariant [of 0 "[sample_span 0 2]" "sample_span 0 2"
      "fst (predict_with_cached_model ''a1'' [sample_span 0 2] (pystr_of ''  '')) ! 0"
      "''a1''" "pystr_of ''  ''", OF _ _ refl b2, unfolded se]
  have c1': "length [sample_span 1 8] > 0" "sample_span 1 8 = [sample_span 1 8] ! 0"
    and c2': "length [sample_span 0 2] > 0" "sample_span 0 2 = [sample_span 0 2] ! 0"
    by simp_all
  from c1 [OF c1'] c2 [OF c2'] ns sp show ?thesis by blast
qed

text \<open>
  C8: for a span with \<open>0 \<le> start \<le> end \<le> len(text)\<close> the slice of the text at the
  emitted offsets is the stripped slice of the span, \<open>text[s:e] == text[start:end].strip()\<close>;
  for a span of whitespace only both sides are the empty string.
\<close>

theorem trimmed_slice_is_stripped:
  assumes "i < length spans" and "sp = spans ! i"
    and "p = fst (predict_with_cached_model aid spans text) ! i"
    and "0 \<le> span_start sp" and "span_start sp \<le> span_end sp"
    and "span_end sp \<le> int (length text)"
  shows "py_slice text (pred_start p) (pred_end p)
           = strip (py_slice text (span_start sp) (span_end sp))"
proof -
  have p: "p = output_line aid text (adjust_span text sp)"
    using assms(1-3) by (simp add: predict_nth)
  show ?thesis
    unfolding p output_line_fields by (rule adjusted_slice [OF assms(4-6)])
qed

theorem trimmed_slice_is_stripped_witness:
  "py_slice (pystr_of ''x  Bob  met'')
     (pred_start (fst (predict_with_cached_model ''a1'' [sample_span 1 8]
        (pystr_of ''x  Bob  met'')) ! 0))
     (pred_end (fst (predict_with_cached_model ''a1'' [sample_span 1 8]
        (pystr_of ''x  Bob  met'')) ! 0))
   = strip (py_slice (pystr_of ''x  Bob  met'') 1 8)
   \<and> strip (py_slice (pystr_of ''x  Bob  met'') 1 8) = pystr_of ''Bob''
   \<and> py_slice (pystr_of ''  '')
     (pred_start (fst (predict_with_cached_model ''a1'' [sample_span 0 2]
        (pystr_of ''  '')) ! 0))
     (pred_end (fst (predict_with_cached_model ''a1'' [sample_span 0 2]
        (pystr_of ''  '')) ! 0))
   = strip (py_slice (pystr_of ''  '') 0 2)
   \<and> strip (py_slice (pystr_of ''  '') 0 2) = []"
proof -
  have b1: "0 \<le> span_start (sample_span 1 8)"
    "span_start (sample_span 1 8) \<le> span_end (sample_span 1 8)"
    "span_end (sample_span 1 8) \<le> int (length (pystr_of ''x  Bob  met''))"
    by (simp_all add: sample_span_def pystr_of_def)
  have b2: "0 \<le> span_start (sample_span 0 2)"
    "span_start (sample_span 0 2) \<le> span_end (sample_span 0 2)"
    "span_end (sample_span 0 2) \<le> int (length (pystr_of ''  ''))"
    by (simp_all add: sample_span_def pystr_of_def)
  have se: "span_start (sample_span 1 8) = 1" "span_end (sample_span 1 8) = 8"
    "span_start (sample_span 0 2) = 0" "span_end (sample_span 0 2) = 2"
    by (simp_all add: sample_span_def)
  note c1 = trimmed_slice_is_stripped [of 0 "[sample_span 1 8]" "sample_span 1 8"
      "fst (predict_with_cached_model ''a1'' [sample_span 1 8] (pystr_of ''x  Bob  met'')) ! 0"
      "''a1''" "pystr_of ''x  Bob  met''", OF _ _ refl b1, unfolded se]
  note c2 = trimmed_slice_is_stripped [of 0 "[sample_span 0 2]" "sample_span 0 2"
      "fst (predict_with_cached_model ''a1'' [sample_span 0 2] (pystr_of ''  '')) ! 0"
      "''a1''" "pystr_of ''  ''", OF _ _ refl b2, unfolded se]
  have c1': "length [sample_span 1 8] > 0" "sample_span 1 8 = [sample_span 1 8] ! 0"
    and c2': "length [sample_span 0 2] > 0" "sample_span 0 2 = [sample_span 0 2] ! 0"
    by simp_all
  have v1: "strip (py_slice (pystr_of ''x  Bob  met'') 1 8) = pystr_of ''Bob''"
    by (simp add: pystr_of_def py_slice_def slice_index_def py_isspace_def strip_def
        lstrip_def rstrip_def)
  have v2: "strip (py_slice (pystr_of ''  '') 0 2) = []"
    by (simp add: pystr_of_def py_slice_def slice_index_def py_isspace_def strip_def
        lstrip_def rstrip_def)
  from c1 [OF c1'] c2 [OF c2'] v1 v2 show ?thesis by blast
qed

section \<open>Which load failure is reported\<close>

text \<open>
  C9: when the NER model is \<open>None\<close> the reported error is "NER model failed to load",
  whether or not the stage-2 model loaded, and no combination of outcomes reports
  "Both models failed to load": the status is always that of one of the first three
  branches.
\<close>

theorem ner_failure_reported_first:
  "prediction_error None STAGE2_MODEL = Some ''NER model failed to load''
   \<and> PREDICTION_AVAILABLE None STAGE2_MODEL = False
   \<and> prediction_error NER_MODEL STAGE2_MODEL \<noteq> Some ''Both models failed to load''
   \<and> prediction_status NER_MODEL STAGE2_MODEL
       \<in> {(True, None), (False, Some ''NER model failed to load''),
          (False, Some ''Stage 2 model failed to load'')}"
  by (simp add: prediction_error_def PREDICTION_AVAILABLE_def prediction_status_def)

theorem ner_failure_reported_first_witness:
  "prediction_error (None :: unit option) (None :: unit option)
     = Some ''NER model failed to load''
   \<and> prediction_error (Some ()) (None :: unit option) = Some ''Stage 2 model failed to load''
   \<and> prediction_error (Some ()) (Some ()) = None"
  using ner_failure_reported_first [of "None :: unit option" "None :: unit option"]
  by (simp add: prediction_error_def prediction_status_def)

section \<open>The role filter keeps exactly the mentions of the enabled roles\<close>

lemma filter_labels_foldl:
  assumes "distinct (map fst (acc @ labels))"
  shows "foldl (\<lambda>filtered (entity, mentions).
              let filtered_mentions = filter (\<lambda>m. main_role m \<in> set rf) mentions
              in if filtered_mentions \<noteq> [] then dict_set filtered entity filtered_mentions
                 else filtered) acc labels
         = acc @ filter (\<lambda>(entity, mentions). mentions \<noteq> [])
                   (map (\<lambda>(entity, mentions). (entity, filter (\<lambda>m. main_role m \<in> set rf) mentions))
                        labels)"
  using assms
proof (induction labels arbitrary: acc)
  case Nil
  then show ?case by simp
next
  case (Cons kv labels)
  obtain k ms where kv: "kv = (k, ms)" by (cases kv)
  from Cons.prems kv have fresh: "k \<notin> set (map fst acc)" by auto
  show ?case
  proof (cases "filter (\<lambda>m. main_role m \<in> set rf) ms = []")
    case True
    from Cons.prems kv have "distinct (map fst (acc @ labels))" by auto
    from Cons.IH [OF this] True show ?thesis by (simp add: kv)
  next
    case False
    from Cons.prems kv
    have "distinct (map fst ((acc @ [(k, filter (\<lambda>m. main_role m \<in> set rf) ms)]) @ labels))"
      by auto
    from Cons.IH [OF this] False show ?thesis
      by (simp add: kv dict_set_fresh [OF fresh])
  qed
qed

lemma filter_labels_eq:
  assumes "is_dict labels"
  shows "filter_labels_by_role labels rf
         = filter (\<lambda>(entity, mentions). mentions \<noteq> [])
             (map (\<lambda>(entity, mentions). (entity, filter (\<lambda>m. main_role m \<in> set rf) mentions))
                  labels)"
  using assms filter_labels_foldl [of "[]" labels rf]
  by (simp add: filter_labels_by_role_def is_dict_def)

lemma map_of_filtered:
  assumes "distinct (map fst labels)"
  shows "map_of (filter (\<lambda>(entity, mentions). mentions \<noteq> [])
             (map (\<lambda>(entity, mentions). (entity, filter P mentions)) labels)) entity
     = (case map_of labels entity of
          None \<Rightarrow> None
        | Some mentions \<Rightarrow> if filter P mentions \<noteq> [] then Some (filter P mentions) else None)"
  using assms
proof (induction labels)
  case Nil
  then show ?case by simp
next
  case (Cons kv labels)
  obtain k ms where kv: "kv = (k, ms)" by (cases kv)
  from Cons.prems kv have "k \<notin> set (map fst labels)" and d: "distinct (map fst labels)" by auto
  then have "map_of labels k = None" by (simp add: map_of_eq_None_iff)
  with Cons.IH [OF d] show ?case
    by (auto simp: kv split: option.splits)
qed

lemma filtered_keys_distinct:
  "distinct (map fst labels) \<Longrightarrow>
   distinct (map fst (filter Q (map (\<lambda>(entity, mentions). (entity, f mentions)) labels)))"
proof -
  assume d: "distinct (map fst labels)"
  have "map fst (map (\<lambda>(entity, mentions). (entity, f mentions)) labels) = map fst labels"
    by (induction labels) auto
  with d have "distinct (map fst (map (\<lambda>(entity, mentions). (entity, f mentions)) labels))"
    by (simp only:)
  then show ?thesis by (rule distinct_map_filter)
qed


text \<open>
  C6: on well-formed labels, \<open>filter_labels_by_role\<close> returns a well-formed dict in
  which an entity is a key exactly when one of its mentions has its \<open>main_role\<close> in the
  role filter, and the value of the key is the list of exactly those mentions, each
  unchanged and in the order of the input.
\<close>

theorem role_filter_exact:
  assumes "is_dict labels"
  shows "is_dict (filter_labels_by_role labels role_filter)
    \<and> map_of (filter_labels_by_role labels role_filter) entity
        = (case map_of labels entity of
             None \<Rightarrow> None
           | Some mentions \<Rightarrow>
               if \<exists>m \<in> set mentions. main_role m \<in> set role_filter
               then Some (filter (\<lambda>m. main_role m \<in> set role_filter) mentions)
               else None)"
proof -
  from assms have d: "distinct (map fst labels)" by (simp add: is_dict_def)
  have "is_dict (filter_labels_by_role labels role_filter)"
    unfolding filter_labels_eq [OF assms] is_dict_def
    by (rule filtered_keys_distinct [OF d])
  moreover have "map_of (filter_labels_by_role labels role_filter) entity
        = (case map_of labels entity of
             None \<Rightarrow> None
           | Some mentions \<Rightarrow>
               if \<exists>m \<in> set mentions. main_role m \<in> set role_filter
               then Some (filter (\<lambda>m. main_role m \<in> set role_filter) mentions)
               else None)"
    unfolding filter_labels_eq [OF assms] map_of_filtered [OF d]
    by (simp add: filter_empty_conv split: option.splits)
  ultimately show ?thesis by simp
qed

theorem role_filter_exact_witness:
  "is_dict sample_labels
   \<and> is_dict (filter_labels_by_role sample_labels [Some ''Protagonist'', Some ''Antagonist''])
   \<and> map_of (filter_labels_by_role sample_labels [Some ''Protagonist'', Some ''Antagonist''])
        (pystr_of ''Alice'') = Some [\<lparr>main_role = Some ''Protagonist''\<rparr>]
   \<and> map_of (filter_labels_by_role sample_labels [Some ''Innocent'']) (pystr_of ''Bob'') = None"
proof -
  have d: "is_dict sample_labels"
    by (simp add: is_dict_def sample_labels_def pystr_of_def)
  show ?thesis
    using d
      role_filter_exact [OF d, of "[Some ''Protagonist'', Some ''Antagonist'']"
        "pystr_of ''Alice''"]
      role_filter_exact [OF d, of "[Some ''Innocent'']" "pystr_of ''Bob''"]
    by (simp add: sample_labels_def pystr_of_def)
qed

section \<open>The accumulator of seen entities\<close>

lemma render_sentences_length:
  "length (render_sentences fmt labels rf thr hr cm seen sents) = length sents"
  by (induction sents arbitrary: seen) (auto split: prod.splits)

lemma render_sentences_threaded:
  assumes "i < length sents"
  shows "seen_before (render_sentences fmt labels rf thr hr cm seen sents ! i)
           = (if i = 0 then seen
              else seen_after (render_sentences fmt labels rf thr hr cm seen sents ! (i - 1)))
       \<and> step_sentence (render_sentences fmt labels rf thr hr cm seen sents ! i) = sents ! i
       \<and> (html_block (render_sentences fmt labels rf thr hr cm seen sents ! i),
          seen_after (render_sentences fmt labels rf thr hr cm seen sents ! i))
          = fmt (sents ! i) (filter_labels_by_role labels rf) thr hr cm
              (seen_before (render_sentences fmt labels rf thr hr cm seen sents ! i))"
  using assms
proof (induction sents arbitrary: seen i)
  case Nil
  then show ?case by simp
next
  case (Cons sent sents)
  obtain block seen' where f: "fmt sent (filter_labels_by_role labels rf) thr hr cm seen = (block, seen')"
    by (cases "fmt sent (filter_labels_by_role labels rf) thr hr cm seen")
  show ?case
  proof (cases i)
    case 0
    then show ?thesis by (simp add: f)
  next
    case (Suc j)
    with Cons.prems have j: "j < length sents" by simp
    from Cons.IH [OF j, of seen'] show ?thesis
      by (cases j) (simp_all add: f Suc)
  qed
qed


text \<open>
  C3: in both rendering loops the first call of \<open>format_sentence_with_spans\<close> receives
  \<open>None\<close> as the accumulator of seen entities, and every later call receives the
  accumulator that the call before it returned; every sentence is rendered by one call,
  on the role-filtered labels, and its block and accumulator are what that call
  returned.
\<close>

theorem seen_accumulator_threaded:
  assumes "i < length sents"
    and "steps = render_role_sentences fmt labels role_filter threshold hide_repeat sents"
    and "fine = render_fine_sentences fmt labels role_filter threshold hide_repeat sents"
  shows "length steps = length sents
    \<and> seen_before (steps ! i) = (if i = 0 then None else seen_after (steps ! (i - 1)))
    \<and> (html_block (steps ! i), seen_after (steps ! i))
        = fmt (sents ! i) (filter_labels_by_role labels role_filter) threshold hide_repeat
            False (seen_before (steps ! i))
    \<and> length fine = length sents
    \<and> seen_before (fine ! i) = (if i = 0 then None else seen_after (fine ! (i - 1)))
    \<and> (html_block (fine ! i), seen_after (fine ! i))
        = fmt (sents ! i) (filter_labels_by_role labels role_filter) threshold hide_repeat
            True (seen_before (fine ! i))"
  using render_sentences_threaded [OF assms(1), of fmt labels role_filter threshold
      hide_repeat False None]
    render_sentences_threaded [OF assms(1), of fmt labels role_filter threshold
      hide_repeat True None]
  unfolding assms(2,3) render_role_sentences_def render_fine_sentences_def
  by (simp only: render_sentences_length simp_thms)

theorem seen_accumulator_threaded_witness:
  "(1::nat) < length [pystr_of ''A'', pystr_of ''B'', pystr_of ''C'']
   \<and> seen_before (render_role_sentences recording_formatter sample_labels [Some ''Innocent'']
        (1 / 2) True [pystr_of ''A'', pystr_of ''B'', pystr_of ''C''] ! 1)
      = seen_after (render_role_sentences recording_formatter sample_labels [Some ''Innocent'']
        (1 / 2) True [pystr_of ''A'', pystr_of ''B'', pystr_of ''C''] ! 0)
   \<and> seen_after (render_role_sentences recording_formatter sample_labels [Some ''Innocent'']
        (1 / 2) True [pystr_of ''A'', pystr_of ''B'', pystr_of ''C''] ! 0)
      = Some [pystr_of ''A'']
   \<and> seen_before (render_role_sentences recording_formatter sample_labels [Some ''Innocent'']
        (1 / 2) True [pystr_of ''A'', pystr_of ''B'', pystr_of ''C''] ! 0) = None"
proof -
  have l: "(1::nat) < length [pystr_of ''A'', pystr_of ''B'', pystr_of ''C'']" by simp
  have l0: "(0::nat) < length [pystr_of ''A'', pystr_of ''B'', pystr_of ''C'']" by simp
  note c1 = seen_accumulator_threaded [OF l refl refl, of recording_formatter sample_labels
      "[Some ''Innocent'']" "1 / 2" True]
  note c0 = seen_accumulator_threaded [OF l0 refl refl, of recording_formatter sample_labels
      "[Some ''Innocent'']" "1 / 2" True]
  have v: "seen_after (render_role_sentences recording_formatter sample_labels
        [Some ''Innocent''] (1 / 2) True [pystr_of ''A'', pystr_of ''B'', pystr_of ''C''] ! 0)
      = Some [pystr_of ''A'']"
    by (simp add: render_role_sentences_def recording_formatter_def)
  from l c1 c0 v show ?thesis by simp
qed

section \<open>Annotating a text without mentions\<close>

lemma select_mention_Nil: "select_mention text [] hide_repeat seen i = None"
  by (simp add: select_mention_def)

lemma scan_no_mentions:
  "scan render_span text [] hide_repeat i seen = html_escape (drop i text)"
proof (induction "length text - i" arbitrary: i)
  case 0
  then show ?case by (subst scan.simps) (simp add: html_escape_def)
next
  case (Suc n)
  then have i: "i < length text" and n: "n = length text - (i + 1)" by simp_all
  have "scan render_span text [] hide_repeat i seen
          = html_escape_char (text ! i) @ scan render_span text [] hide_repeat (i + 1) seen"
    using i by (subst scan.simps) (simp add: select_mention_Nil)
  also have "\<dots> = html_escape_char (text ! i) @ html_escape (drop (i + 1) text)"
    using Suc.hyps(1) [OF n] by simp
  also have "\<dots> = html_escape (drop i text)"
    using i by (simp add: html_escape_def Cons_nth_drop_Suc [symmetric])
  finally show ?case .
qed

text \<open>
  C7: with the empty mention set the document annotation is exactly the HTML-escaped
  text, whatever the markup of a span and the value of \<open>hide_repeat\<close>; so is the
  annotated article of line 442 when no mention passes the role filter.
\<close>

theorem empty_mentions_identity:
  "annotate_document render_span text [] hide_repeat = html_escape text
   \<and> reformat_text_html_with_tooltips render_span text [] hide_repeat = html_escape text
   \<and> (filter_labels_by_role labels role_filter = [] \<longrightarrow>
        annotated_article render_span text labels role_filter hide_repeat = html_escape text)"
  by (simp add: annotated_article_def reformat_text_html_with_tooltips_def
      annotate_document_def scan_no_mentions)

theorem empty_mentions_identity_witness:
  "annotate_document sample_render_span (pystr_of ''a<b & c'') [] True
     = pystr_of ''a&lt;b &amp; c''
   \<and> filter_labels_by_role
        [(pystr_of ''Alice'', [sample_mention ''Alice'' 0 5 ''Protagonist''])]
        [Some ''Innocent''] = []
   \<and> annotated_article sample_render_span (pystr_of ''Alice met Bob.'')
        [(pystr_of ''Alice'', [sample_mention ''Alice'' 0 5 ''Protagonist''])]
        [Some ''Innocent''] True
     = pystr_of ''Alice met Bob.''"
proof -
  have f: "filter_labels_by_role
        [(pystr_of ''Alice'', [sample_mention ''Alice'' 0 5 ''Protagonist''])]
        [Some ''Innocent''] = []"
    by (simp add: filter_labels_by_role_def sample_mention_def)
  have e1: "html_escape (pystr_of ''a<b & c'') = pystr_of ''a&lt;b &amp; c''"
    by (simp add: html_escape_def html_escape_char_def pystr_of_def)
  have e2: "html_escape (pystr_of ''Alice met Bob.'') = pystr_of ''Alice met Bob.''"
    by (simp add: html_escape_def html_escape_char_def pystr_of_def)
  from f e1 e2
    empty_mentions_identity [of sample_render_span "pystr_of ''a<b & c''" True]
    empty_mentions_identity [of sample_render_span "pystr_of ''Alice met Bob.''" True
      "[(pystr_of ''Alice'', [sample_mention ''Alice'' 0 5 ''Protagonist''])]"
      "[Some ''Innocent'']"]
  show ?thesis by simp
qed

text \<open>
  The two examples of section 8 of the specification, on the sample markup: both
  mentions of "Alice met Bob." are wrapped and the rest is plain text; with
  \<open>hide_repeat\<close> only the first of two mentions of the same entity text is wrapped.
\<close>

lemma annotate_document_example:
  "annotate_document sample_render_span (pystr_of ''Alice met Bob.'')
     [sample_mention ''Alice'' 0 5 ''Protagonist'', sample_mention ''Bob'' 10 13 ''Antagonist'']
     False
   = pystr_of ''<span class=Protagonist>Alice</span> met <span class=Antagonist>Bob</span>.''"
  by (simp add: annotate_document_def scan.simps select_mention_def begins_at_def
      clamp_offset_def sample_mention_def sample_render_span_def html_escape_def
      html_escape_char_def pystr_of_def)

lemma annotate_document_repeat_example:
  "annotate_document sample_render_span (pystr_of ''Al Al'')
     [sample_mention ''Al'' 0 2 ''Protagonist'', sample_mention ''Al'' 3 5 ''Protagonist'']
     True
   = pystr_of ''<span class=Protagonist>Al</span> Al''"
  by (simp add: annotate_document_def scan.simps select_mention_def begins_at_def
      clamp_offset_def sample_mention_def sample_render_span_def html_escape_def
      html_escape_char_def pystr_of_def)

end
